theory Spec2Isabelle
  imports Main "HOL-Library.While_Combinator"
begin

section \<open>Data model\<close>

text \<open>
  The development embeds \<^verbatim>\<open>PackageDependenciesValidation.cpp\<close>. The types it uses
  are declared in headers outside the file; they are modelled here as far as the file
  relies on them.

  Modelled from the spec: \<^verbatim>\<open>Utility::Version\<close> (declared in AppInstallerVersions.h) is
  a totally ordered value with a distinguished "unknown" sentinel that is the minimum of
  the order. It is a type parameter \<open>'v\<close> of sort \<open>{linorder, order_bot}\<close>; the sentinel
  is \<open>bot\<close>. A version and the string it was parsed from are identified, so
  \<^verbatim>\<open>Utility::Version(s)\<close> and \<^verbatim>\<open>ToString()\<close> are the identity.
\<close>

type_synonym rowid_t = int
type_synonym Channel = string

definition CreateUnknown :: "'v::{linorder,order_bot}" where
  "CreateUnknown = bot"

definition IsUnknown :: "'v::{linorder,order_bot} \<Rightarrow> bool" where
  "IsUnknown v \<longleftrightarrow> v = bot"

text \<open>
  Modelled from the spec: a dependency is a kind, a target package identifier and a
  minimum version; only the package kind takes part in the graph. A manifest has an
  identifier, a version and installers, each with its own list of dependencies
  (\<^verbatim>\<open>Manifest::Dependency\<close>, \<^verbatim>\<open>Manifest::Manifest\<close> and the installer are declared
  in winget/Manifest.h, outside the file).
\<close>

datatype DependencyType = WindowsFeature | WindowsLibrary | Package | External

record 'v Dependency =
  Type :: DependencyType
  Id :: string
  MinVersion :: 'v

type_synonym 'v DependencyList = "'v Dependency list"

record 'v ManifestInstaller =
  Dependencies :: "'v DependencyList"

record 'v Manifest =
  Id :: string
  Version :: 'v
  Installers :: "'v ManifestInstaller list"

text \<open>\<^verbatim>\<open>struct DependentManifestInfo\<close> (lines 21-25): both fields are strings.\<close>

record DependentManifestInfo =
  Id :: string
  Version :: string

datatype PackageVersionProperty = Property_Id | Property_Version

text \<open>
  The queries of \<^verbatim>\<open>SQLiteIndex\<close> that the file calls, taken as parameters: the index
  is an external collaborator. \<open>Search\<close> is the search for the case-insensitive
  identifier filter of lines 47-50 and yields the package row of each match. The version
  argument of \<open>GetManifestIdByKey\<close> is \<open>Some v\<close> for the string of version \<open>v\<close>
  and \<open>None\<close> for the empty string of line 154.
\<close>

record 'v SQLiteIndex =
  Search :: "string \<Rightarrow> rowid_t list"
  GetVersionKeysById :: "rowid_t \<Rightarrow> ('v \<times> Channel) list"
  GetManifestIdByKey :: "rowid_t \<Rightarrow> 'v option \<Rightarrow> Channel \<Rightarrow> rowid_t option"
  GetDependenciesByManifestRowId :: "rowid_t \<Rightarrow> (rowid_t \<times> 'v) list"
  GetDependentsById :: "string \<Rightarrow> (rowid_t \<times> 'v) list"
  GetPropertyByManifestId :: "rowid_t \<Rightarrow> PackageVersionProperty \<Rightarrow> string option"

section \<open>Errors\<close>

text \<open>
  The message constants of \<^verbatim>\<open>Manifest::ManifestError\<close> are declared elsewhere; a
  validation error is the constant it starts with and the text the code appends to it.
\<close>

datatype ManifestError =
    MissingManifestDependenciesNode
  | NoSuitableMinVersion
  | FoundLoop
  | SingleManifestPackageHasDependencies
  | MultiManifestPackageHasDependencies

datatype ValidationError = ValidationError ManifestError string

text \<open>
  What a call can raise: the \<^verbatim>\<open>ManifestException\<close> carrying
  \<^verbatim>\<open>APPINSTALLER_CLI_ERROR_DEPENDENCIES_VALIDATION_FAILED\<close>, the
  \<^verbatim>\<open>THROW_HR(APPINSTALLER_CLI_ERROR_MISSING_PACKAGE)\<close> of line 209, and the
  \<^verbatim>\<open>std::bad_optional_access\<close> of a \<^verbatim>\<open>.value()\<close> on an empty optional.
  Dereferencing \<^verbatim>\<open>begin()\<close> of an empty vector (line 96) is undefined behaviour.
\<close>

datatype Failure =
    ManifestException "ValidationError list"
  | MissingPackage
  | BadOptionalAccess
  | UndefinedBehaviour

section \<open>GetPackageLatestVersion (lines 44-90)\<close>

text \<open>The body of the loop of lines 67-79, on the running maximum.\<close>

definition latestStep ::
  "('v::{linorder,order_bot}) set \<Rightarrow> 'v \<times> Channel \<Rightarrow> 'v \<times> Channel \<Rightarrow> 'v \<times> Channel" where
  "latestStep exclusions maxVersion v =
     (let currentVersion = fst v in
      if currentVersion \<in> exclusions then maxVersion
      else if currentVersion > fst maxVersion then v
      else maxVersion)"

definition GetPackageLatestVersion ::
  "('v::{linorder,order_bot}) SQLiteIndex \<Rightarrow> string \<Rightarrow> 'v set
     \<Rightarrow> Failure + (rowid_t \<times> 'v) option" where
  "GetPackageLatestVersion index packageId exclusions =
     (case Search index packageId of
        [] \<Rightarrow> Inr None
      | packageRowId # _ \<Rightarrow>
          let vac = GetVersionKeysById index packageRowId in
          if vac = [] then Inr None
          else
            let maxVersion = foldl (latestStep exclusions) (CreateUnknown, '''') vac in
            if IsUnknown (fst maxVersion) then Inr None
            else
              (case GetManifestIdByKey index packageRowId (Some (fst maxVersion)) (snd maxVersion) of
                 None \<Rightarrow> Inl BadOptionalAccess
               | Some manifestRowId \<Rightarrow> Inr (Some (manifestRowId, fst maxVersion))))"

section \<open>ThrowOnManifestValidationFailed (lines 92-110)\<close>

definition dependentPackage :: "DependentManifestInfo \<times> 'v \<Rightarrow> string" where
  "dependentPackage current =
     DependentManifestInfo.Id (fst current) @ ''.'' @ DependentManifestInfo.Version (fst current)"

fun ThrowOnManifestValidationFailed ::
  "(DependentManifestInfo \<times> 'v) list \<Rightarrow> ManifestError \<Rightarrow> Failure" where
  "ThrowOnManifestValidationFailed [] error = UndefinedBehaviour"
| "ThrowOnManifestValidationFailed (itrStart # rest) error =
     (let dependentPackages =
            foldl (\<lambda>acc current. acc @ '', '' @ dependentPackage current)
              (dependentPackage itrStart) rest
      in ManifestException [ValidationError error ([CHR 0x0A] @ dependentPackages)])"

section \<open>VerifyDependenciesStructureForManifestDelete (lines 180-246)\<close>

text \<open>
  The calls of \<open>GetPackageLatestVersion\<close> a function makes are part of what it does.
  A call made through \<open>resolveLatest\<close> is recorded with the identifier and the
  exclusion set it was given: what the record shows of a call is what the call received.
\<close>

type_synonym 'v ResolverCall = "string \<times> 'v set"

definition resolveLatest ::
  "('v::{linorder,order_bot}) SQLiteIndex \<Rightarrow> string \<Rightarrow> 'v set \<Rightarrow> 'v ResolverCall list
     \<Rightarrow> (Failure + (rowid_t \<times> 'v) option) \<times> 'v ResolverCall list" where
  "resolveLatest index packageId exclusions calls =
     (GetPackageLatestVersion index packageId exclusions, calls @ [(packageId, exclusions)])"

text \<open>The \<^verbatim>\<open>for_each\<close> of lines 191-201; each \<^verbatim>\<open>.value()\<close> can raise.\<close>

fun dependentManifestInfoToVersionPair ::
  "'v SQLiteIndex \<Rightarrow> (rowid_t \<times> 'v) list \<Rightarrow> Failure + (DependentManifestInfo \<times> 'v) list" where
  "dependentManifestInfoToVersionPair index [] = Inr []"
| "dependentManifestInfoToVersionPair index (current # rest) =
     (case GetPropertyByManifestId index (fst current) Property_Id of
        None \<Rightarrow> Inl BadOptionalAccess
      | Some i \<Rightarrow>
          (case GetPropertyByManifestId index (fst current) Property_Version of
             None \<Rightarrow> Inl BadOptionalAccess
           | Some v \<Rightarrow>
               (case dependentManifestInfoToVersionPair index rest of
                  Inl e \<Rightarrow> Inl e
                | Inr pairs \<Rightarrow>
                    Inr ((\<lparr>DependentManifestInfo.Id = i, DependentManifestInfo.Version = v\<rparr>,
                          snd current) # pairs))))"

definition VerifyDependenciesStructureForManifestDelete ::
  "('v::{linorder,order_bot}) SQLiteIndex \<Rightarrow> 'v Manifest
     \<Rightarrow> (Failure + bool) \<times> 'v ResolverCall list" where
  "VerifyDependenciesStructureForManifestDelete index manifest =
     (let dependentsSet = GetDependentsById index (Manifest.Id manifest) in
      if length dependentsSet = 0 then (Inr True, [])
      else
        (case dependentManifestInfoToVersionPair index dependentsSet of
           Inl e \<Rightarrow> (Inl e, [])
         | Inr infoToVersion \<Rightarrow>
             (case resolveLatest index (Manifest.Id manifest) {} [] of
                (Inl e, calls) \<Rightarrow> (Inl e, calls)
              | (Inr None, calls) \<Rightarrow> (Inl MissingPackage, calls)
              | (Inr (Some packageLatest), calls) \<Rightarrow>
                  if Manifest.Version manifest < snd packageLatest then (Inr True, calls)
                  else
                    (case resolveLatest index (Manifest.Id manifest) {snd packageLatest} calls of
                       (Inl e, calls) \<Rightarrow> (Inl e, calls)
                     | (Inr None, calls) \<Rightarrow>
                         (Inl (ThrowOnManifestValidationFailed infoToVersion
                                 SingleManifestPackageHasDependencies), calls)
                     | (Inr (Some nextLatestAfterDelete), calls) \<Rightarrow>
                         let breakingManifests =
                               filter (\<lambda>current. snd current > snd nextLatestAfterDelete)
                                 infoToVersion
                         in
                         if length breakingManifests \<noteq> 0
                         then (Inl (ThrowOnManifestValidationFailed breakingManifests
                                      MultiManifestPackageHasDependencies), calls)
                         else (Inr True, calls)))))"


section \<open>DependencyList\<close>

text \<open>
  Modelled from the spec: \<^verbatim>\<open>Manifest::DependencyList\<close> (declared with the manifest
  types, outside the file) is a collection of dependencies deduplicated by kind and target:
  adding a dependency whose target is already present is a no-op or an overwrite and never
  gives two entries for one target. The list keeps the order of insertion; the policy says
  which of the two an addition of a duplicate does. \<open>ApplyToType\<close> visits the entries
  of one kind.
\<close>

datatype DuplicatePolicy = KeepExisting | Overwrite

definition sameTarget :: "'v Dependency \<Rightarrow> 'v Dependency \<Rightarrow> bool" where
  "sameTarget a b \<longleftrightarrow> Type a = Type b \<and> Dependency.Id a = Dependency.Id b"

fun Add :: "DuplicatePolicy \<Rightarrow> 'v Dependency \<Rightarrow> 'v DependencyList \<Rightarrow> 'v DependencyList" where
  "Add policy newDependency [] = [newDependency]"
| "Add policy newDependency (d # ds) =
     (if sameTarget d newDependency
      then (case policy of KeepExisting \<Rightarrow> d | Overwrite \<Rightarrow> newDependency) # ds
      else d # Add policy newDependency ds)"

definition ApplyToType :: "'v DependencyList \<Rightarrow> DependencyType \<Rightarrow> 'v Dependency list" where
  "ApplyToType depList dependencyType = filter (\<lambda>d. Type d = dependencyType) depList"

section \<open>GetDependencies (lines 27-42)\<close>

definition GetDependencies ::
  "DuplicatePolicy \<Rightarrow> 'v Manifest \<Rightarrow> DependencyType \<Rightarrow> 'v DependencyList" where
  "GetDependencies policy manifest dependencyType =
     foldl (\<lambda>depList installer.
              foldl (\<lambda>depList dependency. Add policy dependency depList) depList
                (ApplyToType (Dependencies installer) dependencyType))
       [] (Installers manifest)"

section \<open>The expansion callback of ValidateManifestDependencies (lines 121-161)\<close>

text \<open>
  The variables the lambda captures by reference and updates (lines 118-119), with the
  calls of the version resolver made so far.
\<close>

record 'v ValidationState =
  dependenciesError :: "ValidationError list"
  foundErrors :: bool
  resolverCalls :: "'v ResolverCall list"

text \<open>The \<^verbatim>\<open>for_each\<close> of lines 149-158, adding to \<open>depList\<close>.\<close>

fun packageLatestDependencies ::
  "DuplicatePolicy \<Rightarrow> 'v SQLiteIndex \<Rightarrow> (rowid_t \<times> 'v) list \<Rightarrow> 'v DependencyList
     \<Rightarrow> Failure + 'v DependencyList" where
  "packageLatestDependencies policy index [] depList = Inr depList"
| "packageLatestDependencies policy index (row # rows) depList =
     (case GetManifestIdByKey index (fst row) None '''' of
        None \<Rightarrow> Inl BadOptionalAccess
      | Some manifestRowId \<Rightarrow>
          (case GetPropertyByManifestId index manifestRowId Property_Id of
             None \<Rightarrow> Inl BadOptionalAccess
           | Some packageId \<Rightarrow>
               packageLatestDependencies policy index rows
                 (Add policy \<lparr>Type = Package, Dependency.Id = packageId, MinVersion = snd row\<rparr>
                    depList)))"

definition expansionCallback ::
  "DuplicatePolicy \<Rightarrow> ('v::{linorder,order_bot}) SQLiteIndex \<Rightarrow> 'v Manifest \<Rightarrow> 'v Dependency
     \<Rightarrow> 'v ValidationState \<Rightarrow> (Failure + 'v DependencyList) \<times> 'v ValidationState" where
  "expansionCallback policy index manifest node st =
     (if Dependency.Id node = Manifest.Id manifest
      then (Inr (GetDependencies policy manifest Package), st)
      else
        let st1 = st\<lparr>resolverCalls := resolverCalls st @ [(Dependency.Id node, {})]\<rparr> in
        (case GetPackageLatestVersion index (Dependency.Id node) {} of
           Inl e \<Rightarrow> (Inl e, st1)
         | Inr None \<Rightarrow>
             (Inr [],
              st1\<lparr>dependenciesError := dependenciesError st1 @
                     [ValidationError MissingManifestDependenciesNode
                        ('' '' @ Dependency.Id node)],
                   foundErrors := True\<rparr>)
         | Inr (Some packageLatest) \<Rightarrow>
             if MinVersion node > snd packageLatest
             then (Inr [],
                   st1\<lparr>dependenciesError := dependenciesError st1 @
                          [ValidationError NoSuitableMinVersion ('' '' @ Dependency.Id node)],
                        foundErrors := True\<rparr>)
             else
               (packageLatestDependencies policy index
                  (GetDependenciesByManifestRowId index (fst packageLatest)) [],
                st1)))"

section \<open>DependencyGraph\<close>

text \<open>
  Modelled from the spec: \<^verbatim>\<open>DependencyGraph\<close> (declared in winget/DependenciesGraph.h,
  outside the file). The builder starts from the root, keeps a mapping from node identity
  (the target identifier) to the node's expanded children and a work queue of nodes not
  yet expanded, seeded with the root. For each node taken from the queue: if it is already
  expanded it is skipped; otherwise the expansion function is called on it, the list it
  returns is recorded as the node's children, and every child not yet known (whose
  identifier has no entry in the mapping) is enqueued. The expanded nodes are kept in the
  order of their expansion.
  The order of expansion is unspecified: \<open>pick\<close> chooses the position in the queue of
  the node to take next. The expansion function reads and updates the state of its caller
  and may raise, which ends the construction.
\<close>

record ('v, 's) DependencyGraph =
  root :: "'v Dependency"
  queue :: "'v Dependency list"
  adjacents :: "string \<rightharpoonup> 'v DependencyList"
  nodes :: "'v Dependency list"
  callerState :: 's
  raised :: "Failure option"

definition newDependencyGraph :: "'v Dependency \<Rightarrow> 's \<Rightarrow> ('v, 's) DependencyGraph" where
  "newDependencyGraph rootId st =
     \<lparr>root = rootId, queue = [rootId], adjacents = Map.empty, nodes = [],
      callerState = st, raised = None\<rparr>"

definition BuildGraph_step ::
  "('v Dependency list \<Rightarrow> nat) \<Rightarrow> ('v Dependency \<Rightarrow> 's \<Rightarrow> (Failure + 'v DependencyList) \<times> 's)
     \<Rightarrow> ('v, 's) DependencyGraph \<Rightarrow> ('v, 's) DependencyGraph" where
  "BuildGraph_step pick expand g =
     (let i = pick (queue g) mod length (queue g);
          node = queue g ! i;
          rest = take i (queue g) @ drop (Suc i) (queue g)
      in
      if adjacents g (Dependency.Id node) \<noteq> None then g\<lparr>queue := rest\<rparr>
      else
        (case expand node (callerState g) of
           (Inl e, st) \<Rightarrow> g\<lparr>queue := rest, callerState := st, raised := Some e\<rparr>
         | (Inr children, st) \<Rightarrow>
             let recorded = (adjacents g)(Dependency.Id node \<mapsto> children) in
             g\<lparr>queue := rest @ filter (\<lambda>c. recorded (Dependency.Id c) = None) children,
               adjacents := recorded,
               nodes := nodes g @ [node],
               callerState := st\<rparr>))"

text \<open>The loop runs while the queue is not empty and nothing was raised. A construction
  that never ends has the value \<open>None\<close>.\<close>

definition BuildGraph ::
  "('v Dependency list \<Rightarrow> nat) \<Rightarrow> ('v Dependency \<Rightarrow> 's \<Rightarrow> (Failure + 'v DependencyList) \<times> 's)
     \<Rightarrow> ('v, 's) DependencyGraph \<Rightarrow> ('v, 's) DependencyGraph option" where
  "BuildGraph pick expand g =
     while_option (\<lambda>g. queue g \<noteq> [] \<and> raised g = None) (BuildGraph_step pick expand) g"

text \<open>
  Modelled from the spec: cycle detection is a three-colour depth-first search over the
  recorded edges (white: unvisited, gray: on the current path, black: fully explored). An
  edge to a gray node is a back edge; \<open>HasLoop\<close> is true iff the search meets one,
  self-loops included. Every node of a built graph is reachable from the root, where the
  search starts. The depth of the search is at most the number of nodes, which bounds the
  recursion.
\<close>

datatype Colour = White | Gray | Black

fun HasLoopDFS ::
    "nat \<Rightarrow> (string \<Rightarrow> string list) \<Rightarrow> string \<Rightarrow> (string \<Rightarrow> Colour) \<Rightarrow> bool \<times> (string \<Rightarrow> Colour)"
  and HasLoopDFS_adjacents ::
    "nat \<Rightarrow> (string \<Rightarrow> string list) \<Rightarrow> string list \<Rightarrow> (string \<Rightarrow> Colour)
       \<Rightarrow> bool \<times> (string \<Rightarrow> Colour)" where
  "HasLoopDFS 0 adj node colour = (False, colour)"
| "HasLoopDFS (Suc depth) adj node colour =
     (case HasLoopDFS_adjacents depth adj (adj node) (colour(node := Gray)) of
        (loop, colour') \<Rightarrow> (loop, colour'(node := Black)))"
| "HasLoopDFS_adjacents depth adj [] colour = (False, colour)"
| "HasLoopDFS_adjacents depth adj (adjacent # rest) colour =
     (case colour adjacent of
        Gray \<Rightarrow> (True, colour)
      | Black \<Rightarrow> HasLoopDFS_adjacents depth adj rest colour
      | White \<Rightarrow>
          (case HasLoopDFS depth adj adjacent colour of
             (loop, colour') \<Rightarrow>
               if loop then (True, colour') else HasLoopDFS_adjacents depth adj rest colour'))"

definition HasLoop :: "('v, 's) DependencyGraph \<Rightarrow> bool" where
  "HasLoop g =
     fst (HasLoopDFS (Suc (length (nodes g)))
            (\<lambda>n. case adjacents g n of None \<Rightarrow> [] | Some children \<Rightarrow> map Dependency.Id children)
            (Dependency.Id (root g)) (\<lambda>n. White))"

section \<open>ValidateManifestDependencies (lines 113-178)\<close>

definition rootId :: "'v Manifest \<Rightarrow> 'v Dependency" where
  "rootId manifest =
     \<lparr>Type = Package, Dependency.Id = Manifest.Id manifest,
      MinVersion = Manifest.Version manifest\<rparr>"

definition initialState :: "'v ValidationState" where
  "initialState = \<lparr>dependenciesError = [], foundErrors = False, resolverCalls = []\<rparr>"

text \<open>Lines 165-177, on the graph that \<^verbatim>\<open>BuildGraph\<close> left.\<close>

definition verdict :: "('v, 'v ValidationState) DependencyGraph \<Rightarrow> Failure + bool" where
  "verdict graph =
     (case raised graph of
        Some e \<Rightarrow> Inl e
      | None \<Rightarrow>
          if foundErrors (callerState graph)
          then Inl (ManifestException (dependenciesError (callerState graph)))
          else if HasLoop graph
          then Inl (ManifestException
                      (dependenciesError (callerState graph) @ [ValidationError FoundLoop '''']))
          else Inr True)"

definition ValidateManifestDependencies ::
  "('v Dependency list \<Rightarrow> nat) \<Rightarrow> DuplicatePolicy \<Rightarrow> ('v::{linorder,order_bot}) SQLiteIndex
     \<Rightarrow> 'v Manifest \<Rightarrow> (Failure + bool) option" where
  "ValidateManifestDependencies pick policy index manifest =
     map_option verdict
       (BuildGraph pick (expansionCallback policy index manifest)
          (newDependencyGraph (rootId manifest) initialState))"

text \<open>
  The errors a node records when it is expanded, and the errors that expansion can
  record: a missing dependency or an unsatisfied minimum version.
\<close>

definition recordedErrors ::
  "DuplicatePolicy \<Rightarrow> ('v::{linorder,order_bot}) SQLiteIndex \<Rightarrow> 'v Manifest \<Rightarrow> 'v Dependency
     \<Rightarrow> ValidationError list" where
  "recordedErrors policy index manifest node =
     dependenciesError (snd (expansionCallback policy index manifest node initialState))"

fun structuralError :: "ValidationError \<Rightarrow> bool" where
  "structuralError (ValidationError e appended) \<longleftrightarrow>
     e = MissingManifestDependenciesNode \<or> e = NoSuitableMinVersion"




section \<open>Example index states\<close>

text \<open>
  Package \<open>P\<close> (package row 1) with versions 1 and 2 (manifest rows 11 and 12) and two
  dependents: manifest row 21 (\<open>D1\<close> 1.0, requiring at least 1) and manifest row 22
  (\<open>D2\<close> 3.1, requiring at least 2). Versions are natural numbers, 0 the unknown
  sentinel.
\<close>

definition example_index :: "nat SQLiteIndex" where
  "example_index =
     \<lparr> Search = (\<lambda>p. if p = ''P'' then [1] else []),
       GetVersionKeysById = (\<lambda>r. if r = 1 then [(1, ''''), (2, '''')] else []),
       GetManifestIdByKey = (\<lambda>r v c.
          if r = 1 \<and> v = Some 1 then Some 11 else if r = 1 \<and> v = Some 2 then Some 12 else None),
       GetDependenciesByManifestRowId = (\<lambda>m. []),
       GetDependentsById = (\<lambda>p. if p = ''P'' then [(21, 1), (22, 2)] else []),
       GetPropertyByManifestId = (\<lambda>m prop.
          if m = 21 then Some (case prop of Property_Id \<Rightarrow> ''D1'' | Property_Version \<Rightarrow> ''1.0'')
          else if m = 22 then Some (case prop of Property_Id \<Rightarrow> ''D2'' | Property_Version \<Rightarrow> ''3.1'')
          else None) \<rparr>"

text \<open>The same index, except that \<open>P\<close> has version 1 only.\<close>

definition example_index_single :: "nat SQLiteIndex" where
  "example_index_single =
     example_index \<lparr> GetVersionKeysById := (\<lambda>r. if r = 1 then [(1, '''')] else []) \<rparr>"

text \<open>
  The same index, with a third dependent: manifest row 23 (\<open>D3\<close> 0.9, requiring at
  least 2).
\<close>

definition example_index_three :: "nat SQLiteIndex" where
  "example_index_three =
     example_index
       \<lparr> GetDependentsById := (\<lambda>p. if p = ''P'' then [(21, 1), (22, 2), (23, 2)] else []),
         GetPropertyByManifestId := (\<lambda>m prop.
            if m = 23 then Some (case prop of Property_Id \<Rightarrow> ''D3'' | Property_Version \<Rightarrow> ''0.9'')
            else GetPropertyByManifestId example_index m prop) \<rparr>"

definition example_manifest :: "string \<Rightarrow> nat \<Rightarrow> nat Manifest" where
  "example_manifest i v = \<lparr> Manifest.Id = i, Version = v, Installers = [] \<rparr>"

lemmas example_defs =
  example_index_def example_index_single_def example_index_three_def example_manifest_def

lemmas eval_defs =
  VerifyDependenciesStructureForManifestDelete_def resolveLatest_def
  GetPackageLatestVersion_def latestStep_def
  CreateUnknown_def IsUnknown_def bot_nat_def dependentPackage_def

text \<open>
  An index for the validation: packages \<open>A\<close> and \<open>C\<close> at version 1 and
  \<open>B\<close> at version 3; \<open>A\<close> requires \<open>B\<close> at least 1, \<open>C\<close> requires
  \<open>B\<close> at least 5. The manifest \<open>R\<close> under validation requires \<open>A\<close> and
  \<open>C\<close>. Two orders of expansion: the oldest node of the queue first, or the newest.
\<close>

definition example_graph_index :: "nat SQLiteIndex" where
  "example_graph_index =
     \<lparr> Search = (\<lambda>p. if p = ''A'' then [2] else if p = ''C'' then [3] else if p = ''B'' then [4]
                      else []),
       GetVersionKeysById = (\<lambda>r. if r = 2 \<or> r = 3 then [(1, '''')] else if r = 4 then [(3, '''')]
                      else []),
       GetManifestIdByKey = (\<lambda>r v c.
          if r = 2 \<and> (v = Some 1 \<or> v = None) then Some 102
          else if r = 3 \<and> (v = Some 1 \<or> v = None) then Some 103
          else if r = 4 \<and> (v = Some 3 \<or> v = None) then Some 104
          else None),
       GetDependenciesByManifestRowId = (\<lambda>m. if m = 102 then [(4, 1)] else if m = 103 then [(4, 5)]
                      else []),
       GetDependentsById = (\<lambda>p. []),
       GetPropertyByManifestId = (\<lambda>m prop.
          if m = 102 then Some (case prop of Property_Id \<Rightarrow> ''A'' | Property_Version \<Rightarrow> ''1'')
          else if m = 103 then Some (case prop of Property_Id \<Rightarrow> ''C'' | Property_Version \<Rightarrow> ''1'')
          else if m = 104 then Some (case prop of Property_Id \<Rightarrow> ''B'' | Property_Version \<Rightarrow> ''3'')
          else None) \<rparr>"

definition example_dependency :: "string \<Rightarrow> nat \<Rightarrow> nat Dependency" where
  "example_dependency i v = \<lparr>Type = Package, Dependency.Id = i, MinVersion = v\<rparr>"

definition example_root :: "nat Manifest" where
  "example_root =
     \<lparr> Manifest.Id = ''R'', Version = 1,
       Installers = [\<lparr>Dependencies = [example_dependency ''A'' 1, example_dependency ''C'' 1]\<rparr>] \<rparr>"

definition firstInQueue :: "'v Dependency list \<Rightarrow> nat" where
  "firstInQueue q = 0"

definition lastInQueue :: "'v Dependency list \<Rightarrow> nat" where
  "lastInQueue q = length q - 1"

definition example_two_installers :: "nat Manifest" where
  "example_two_installers =
     \<lparr> Manifest.Id = ''R'', Version = 1,
       Installers =
         [\<lparr>Dependencies = [example_dependency ''A'' 1, example_dependency ''C'' 1]\<rparr>,
          \<lparr>Dependencies = [\<lparr>Type = WindowsFeature, Dependency.Id = ''F'', MinVersion = 0\<rparr>,
                            example_dependency ''A'' 2]\<rparr>] \<rparr>"


text \<open>
  The same index, except that \<open>B\<close> requires \<open>A\<close>: a loop between \<open>A\<close> and \<open>B\<close>.
\<close>

definition example_loop_index :: "nat SQLiteIndex" where
  "example_loop_index =
     example_graph_index
       \<lparr> GetDependenciesByManifestRowId :=
           (\<lambda>m. if m = 102 then [(4, 1)] else if m = 103 then [(4, 5)]
                else if m = 104 then [(2, 1)] else []) \<rparr>"



lemmas graph_example_defs =
  example_graph_index_def example_dependency_def example_root_def example_two_installers_def
  firstInQueue_def lastInQueue_def

lemmas callback_defs =
  expansionCallback_def GetDependencies_def ApplyToType_def sameTarget_def rootId_def
  initialState_def GetPackageLatestVersion_def latestStep_def CreateUnknown_def IsUnknown_def
  bot_nat_def

section \<open>The version resolver\<close>

text \<open>The running maximum of the loop: it never decreases, it bounds every version that is
  not excluded, and it is the start value or a stored key that is not excluded.\<close>

lemma latestStep_cases:
  "latestStep ex acc v = acc \<or> (latestStep ex acc v = v \<and> fst v \<notin> ex \<and> fst acc < fst v)"
  by (auto simp: latestStep_def Let_def)

lemma latestStep_mono: "fst acc \<le> fst (latestStep ex acc v)"
  by (auto simp: latestStep_def Let_def)

lemma latestStep_upper: "fst v \<notin> ex \<Longrightarrow> fst v \<le> fst (latestStep ex acc v)"
  by (auto simp: latestStep_def Let_def)

lemma foldl_latestStep_mono: "fst acc \<le> fst (foldl (latestStep ex) acc vac)"
proof (induction vac arbitrary: acc)
  case Nil
  show ?case by simp
next
  case (Cons v vac)
  have "fst acc \<le> fst (latestStep ex acc v)" by (rule latestStep_mono)
  also have "\<dots> \<le> fst (foldl (latestStep ex) (latestStep ex acc v) vac)" by (rule Cons.IH)
  finally show ?case by simp
qed

lemma foldl_latestStep_upper:
  "v \<in> set vac \<Longrightarrow> fst v \<notin> ex \<Longrightarrow> fst v \<le> fst (foldl (latestStep ex) acc vac)"
proof (induction vac arbitrary: acc)
  case Nil
  then show ?case by simp
next
  case (Cons w vac)
  show ?case
  proof (cases "v = w")
    case True
    have "fst v \<le> fst (latestStep ex acc w)" using True Cons.prems(2) by (simp add: latestStep_upper)
    also have "\<dots> \<le> fst (foldl (latestStep ex) (latestStep ex acc w) vac)"
      by (rule foldl_latestStep_mono)
    finally show ?thesis by simp
  next
    case False
    then have "v \<in> set vac" using Cons.prems(1) by simp
    then show ?thesis using Cons.IH Cons.prems(2) by simp
  qed
qed

lemma foldl_latestStep_member:
  "foldl (latestStep ex) acc vac = acc \<or>
   (foldl (latestStep ex) acc vac \<in> set vac \<and> fst (foldl (latestStep ex) acc vac) \<notin> ex
      \<and> fst acc < fst (foldl (latestStep ex) acc vac))"
proof (induction vac arbitrary: acc)
  case Nil
  show ?case by simp
next
  case (Cons w vac)
  let ?a = "latestStep ex acc w"
  let ?r = "foldl (latestStep ex) ?a vac"
  have step: "?a = acc \<or> (?a = w \<and> fst w \<notin> ex \<and> fst acc < fst w)" by (rule latestStep_cases)
  have ih: "?r = ?a \<or> (?r \<in> set vac \<and> fst ?r \<notin> ex \<and> fst ?a < fst ?r)" by (rule Cons.IH)
  have mono: "fst acc \<le> fst ?a" by (rule latestStep_mono)
  show ?case using step ih mono by auto
qed


lemma foldl_latestStep_unknown_iff:
  "IsUnknown (fst (foldl (latestStep ex) (CreateUnknown, c0) vac)) \<longleftrightarrow>
     (\<forall>v \<in> set vac. fst v \<in> ex \<or> IsUnknown (fst v))"
proof
  assume unk: "IsUnknown (fst (foldl (latestStep ex) (CreateUnknown, c0) vac))"
  show "\<forall>v \<in> set vac. fst v \<in> ex \<or> IsUnknown (fst v)"
  proof
    fix v assume v: "v \<in> set vac"
    show "fst v \<in> ex \<or> IsUnknown (fst v)"
    proof (cases "fst v \<in> ex")
      case True
      then show ?thesis by simp
    next
      case False
      have "fst v \<le> fst (foldl (latestStep ex) (CreateUnknown, c0) vac)"
        using v False by (rule foldl_latestStep_upper)
      then have "fst v \<le> bot" using unk by (simp add: IsUnknown_def)
      then show ?thesis by (simp add: IsUnknown_def bot_unique)
    qed
  qed
next
  assume all: "\<forall>v \<in> set vac. fst v \<in> ex \<or> IsUnknown (fst v)"
  let ?r = "foldl (latestStep ex) (CreateUnknown, c0) vac"
  have "?r = (CreateUnknown, c0) \<or>
        (?r \<in> set vac \<and> fst ?r \<notin> ex \<and> fst (CreateUnknown, c0) < fst ?r)"
    by (rule foldl_latestStep_member)
  then show "IsUnknown (fst ?r)"
  proof
    assume "?r = (CreateUnknown, c0)"
    then show ?thesis by (simp add: IsUnknown_def CreateUnknown_def)
  next
    assume m: "?r \<in> set vac \<and> fst ?r \<notin> ex \<and> fst (CreateUnknown, c0) < fst ?r"
    then have "fst ?r \<in> ex \<or> IsUnknown (fst ?r)" using all by blast
    then show ?thesis using m by simp
  qed
qed

lemma foldl_latestStep_winner:
  assumes "\<not> IsUnknown (fst (foldl (latestStep ex) (CreateUnknown, c0) vac))"
  shows "foldl (latestStep ex) (CreateUnknown, c0) vac \<in> set vac
         \<and> fst (foldl (latestStep ex) (CreateUnknown, c0) vac) \<notin> ex
         \<and> (\<forall>w \<in> set vac. fst w \<notin> ex \<longrightarrow>
               fst w \<le> fst (foldl (latestStep ex) (CreateUnknown, c0) vac))"
proof -
  let ?r = "foldl (latestStep ex) (CreateUnknown, c0) vac"
  have "?r = (CreateUnknown, c0) \<or>
        (?r \<in> set vac \<and> fst ?r \<notin> ex \<and> fst (CreateUnknown, c0) < fst ?r)"
    by (rule foldl_latestStep_member)
  moreover have "?r \<noteq> (CreateUnknown, c0)"
    using assms by (auto simp: IsUnknown_def CreateUnknown_def)
  ultimately have "?r \<in> set vac \<and> fst ?r \<notin> ex" by blast
  moreover have "\<forall>w \<in> set vac. fst w \<notin> ex \<longrightarrow> fst w \<le> fst ?r"
    using foldl_latestStep_upper by blast
  ultimately show ?thesis by blast
qed

lemma GetPackageLatestVersion_None_iff:
  "GetPackageLatestVersion index packageId ex = Inr None \<longleftrightarrow>
     (case Search index packageId of
        [] \<Rightarrow> True
      | packageRowId # _ \<Rightarrow>
          \<forall>v \<in> set (GetVersionKeysById index packageRowId). fst v \<in> ex \<or> IsUnknown (fst v))"
proof (cases "Search index packageId")
  case Nil
  then show ?thesis by (simp add: GetPackageLatestVersion_def)
next
  case (Cons row rest)
  let ?vac = "GetVersionKeysById index row"
  show ?thesis
  proof (cases "?vac = []")
    case True
    then show ?thesis using Cons by (simp add: GetPackageLatestVersion_def)
  next
    case False
    then show ?thesis
      using Cons foldl_latestStep_unknown_iff [of ex "[]" ?vac]
      by (simp add: GetPackageLatestVersion_def Let_def split: option.splits)
  qed
qed

lemma GetPackageLatestVersion_Some:
  assumes "GetPackageLatestVersion index packageId ex = Inr (Some (h, v))"
  shows "\<exists>packageRowId rest c.
           Search index packageId = packageRowId # rest
           \<and> (v, c) \<in> set (GetVersionKeysById index packageRowId)
           \<and> v \<notin> ex \<and> \<not> IsUnknown v
           \<and> (\<forall>w \<in> set (GetVersionKeysById index packageRowId). fst w \<notin> ex \<longrightarrow> fst w \<le> v)
           \<and> GetManifestIdByKey index packageRowId (Some v) c = Some h"
proof (cases "Search index packageId")
  case Nil
  then show ?thesis using assms by (simp add: GetPackageLatestVersion_def)
next
  case (Cons row rest)
  let ?vac = "GetVersionKeysById index row"
  let ?r = "foldl (latestStep ex) (CreateUnknown, []) ?vac"
  from assms Cons have ne: "?vac \<noteq> []"
    by (auto simp: GetPackageLatestVersion_def)
  from assms Cons ne have known: "\<not> IsUnknown (fst ?r)"
    by (auto simp: GetPackageLatestVersion_def Let_def split: if_splits)
  from assms Cons ne known have res: "GetManifestIdByKey index row (Some (fst ?r)) (snd ?r) = Some h"
      and v: "v = fst ?r"
    by (auto simp: GetPackageLatestVersion_def Let_def split: option.splits)
  have w: "?r \<in> set ?vac \<and> fst ?r \<notin> ex
           \<and> (\<forall>w \<in> set ?vac. fst w \<notin> ex \<longrightarrow> fst w \<le> fst ?r)"
    using known by (rule foldl_latestStep_winner)
  then have "(v, snd ?r) \<in> set ?vac" using v by simp
  then show ?thesis using Cons w v known res by blast
qed

lemma GetPackageLatestVersion_Inl:
  assumes a: "GetPackageLatestVersion index packageId ex = Inl e"
  shows "e = BadOptionalAccess \<and>
     (\<exists>packageRowId rest v c.
           Search index packageId = packageRowId # rest
           \<and> (v, c) \<in> set (GetVersionKeysById index packageRowId)
           \<and> GetManifestIdByKey index packageRowId (Some v) c = None)"
proof (cases "Search index packageId")
  case Nil
  then show ?thesis using a by (simp add: GetPackageLatestVersion_def)
next
  case (Cons row rest)
  let ?vac = "GetVersionKeysById index row"
  let ?r = "foldl (latestStep ex) (CreateUnknown, []) ?vac"
  from a Cons have ne: "?vac \<noteq> []"
    by (auto simp: GetPackageLatestVersion_def)
  from a Cons ne have known: "\<not> IsUnknown (fst ?r)"
    by (auto simp: GetPackageLatestVersion_def Let_def split: if_splits)
  from a Cons ne known have res: "GetManifestIdByKey index row (Some (fst ?r)) (snd ?r) = None"
      and e: "e = BadOptionalAccess"
    by (auto simp: GetPackageLatestVersion_def Let_def split: option.splits)
  have "?r \<in> set ?vac" using known foldl_latestStep_winner by blast
  then have "(fst ?r, snd ?r) \<in> set ?vac" by simp
  then show ?thesis using Cons res e by blast
qed


text \<open>
  Claim C2. In an index snapshot that is consistent, where every stored
  (version, channel) key of a package resolves to a manifest row, \<open>GetPackageLatestVersion\<close>
  never raises, for every package identifier and every exclusion set: it returns none when
  the package is not found, has no stored versions, or has no version that is neither
  excluded nor the unknown sentinel; otherwise it returns the manifest row of the winning
  key paired with the winning version, the greatest version not excluded.
\<close>

theorem GetPackageLatestVersion_result:
  assumes resolves:
    "\<forall>row v c. (v, c) \<in> set (GetVersionKeysById index row)
        \<longrightarrow> GetManifestIdByKey index row (Some v) c \<noteq> None"
  shows "(GetPackageLatestVersion index packageId exclusions = Inr None
          \<and> (case Search index packageId of
                [] \<Rightarrow> True
              | packageRowId # _ \<Rightarrow>
                  \<forall>v \<in> set (GetVersionKeysById index packageRowId).
                     fst v \<in> exclusions \<or> IsUnknown (fst v)))
       \<or> (\<exists>packageRowId rest h v c.
             GetPackageLatestVersion index packageId exclusions = Inr (Some (h, v))
             \<and> Search index packageId = packageRowId # rest
             \<and> (v, c) \<in> set (GetVersionKeysById index packageRowId)
             \<and> v \<notin> exclusions \<and> \<not> IsUnknown v
             \<and> (\<forall>w \<in> set (GetVersionKeysById index packageRowId).
                    fst w \<notin> exclusions \<longrightarrow> fst w \<le> v)
             \<and> GetManifestIdByKey index packageRowId (Some v) c = Some h)"
proof (cases "GetPackageLatestVersion index packageId exclusions")
  case (Inl e)
  then have "\<exists>packageRowId rest v c.
           Search index packageId = packageRowId # rest
           \<and> (v, c) \<in> set (GetVersionKeysById index packageRowId)
           \<and> GetManifestIdByKey index packageRowId (Some v) c = None"
    using GetPackageLatestVersion_Inl by blast
  then show ?thesis using resolves by blast
next
  case (Inr r)
  show ?thesis
  proof (cases r)
    case None
    then show ?thesis using Inr GetPackageLatestVersion_None_iff [of index packageId exclusions]
      by simp
  next
    case (Some hv)
    obtain h v where hv: "hv = (h, v)" by (cases hv)
    have "GetPackageLatestVersion index packageId exclusions = Inr (Some (h, v))"
      using Inr Some hv by simp
    from GetPackageLatestVersion_Some [OF this] this show ?thesis by blast
  qed
qed

text \<open>
  The theorem at the example index: the latest version, a successor and both kinds of none.
\<close>

theorem GetPackageLatestVersion_result_witness:
  "GetPackageLatestVersion example_index ''P'' {} = Inr (Some (12, 2))
   \<and> GetPackageLatestVersion example_index ''P'' {2} = Inr (Some (11, 1))
   \<and> GetPackageLatestVersion example_index ''P'' {1, 2} = Inr None
   \<and> GetPackageLatestVersion example_index ''Q'' {} = Inr None"
proof -
  have h: "\<forall>row v c. (v, c) \<in> set (GetVersionKeysById example_index row)
        \<longrightarrow> GetManifestIdByKey example_index row (Some v) c \<noteq> None"
    by (simp add: example_defs)
  show ?thesis
    using GetPackageLatestVersion_result [OF h, of "''P''" "{}"]
    by (simp add: example_defs eval_defs)
qed

section \<open>The delete-impact analysis\<close>

lemma dependentManifestInfoToVersionPair_Inr:
  "dependentManifestInfoToVersionPair index deps = Inr infos \<Longrightarrow>
     length infos = length deps
     \<and> (\<forall>i < length deps.
           GetPropertyByManifestId index (fst (deps ! i)) Property_Id
             = Some (DependentManifestInfo.Id (fst (infos ! i)))
         \<and> GetPropertyByManifestId index (fst (deps ! i)) Property_Version
             = Some (DependentManifestInfo.Version (fst (infos ! i)))
         \<and> snd (infos ! i) = snd (deps ! i))"
proof (induction deps arbitrary: infos)
  case Nil
  then show ?case by simp
next
  case (Cons d deps)
  from Cons.prems obtain i v rest where
    i: "GetPropertyByManifestId index (fst d) Property_Id = Some i" and
    v: "GetPropertyByManifestId index (fst d) Property_Version = Some v" and
    rest: "dependentManifestInfoToVersionPair index deps = Inr rest" and
    infos: "infos = (\<lparr>DependentManifestInfo.Id = i, DependentManifestInfo.Version = v\<rparr>, snd d) # rest"
    by (auto split: option.splits sum.splits)
  from Cons.IH [OF rest] i v infos show ?case
    by (auto simp: nth_Cons split: nat.splits)
qed

lemma dependentManifestInfoToVersionPair_empty:
  "dependentManifestInfoToVersionPair index deps = Inr infos \<Longrightarrow> infos = [] \<longleftrightarrow> deps = []"
  using dependentManifestInfoToVersionPair_Inr by fastforce

lemma foldl_append_concat:
  "foldl (\<lambda>acc current. acc @ sep @ f current) a rest = a @ concat (map (\<lambda>c. sep @ f c) rest)"
  by (induction rest arbitrary: a) simp_all

lemma ThrowOnManifestValidationFailed_message:
  "ThrowOnManifestValidationFailed (d # ds) error =
     ManifestException
       [ValidationError error
          ([CHR 0x0A] @ dependentPackage d @ concat (map (\<lambda>c. '', '' @ dependentPackage c) ds))]"
  by (simp only: ThrowOnManifestValidationFailed.simps Let_def foldl_append_concat)

lemma only_version_is_latest:
  assumes latest: "GetPackageLatestVersion index packageId {} = Inr (Some (h, latest))"
      and none: "GetPackageLatestVersion index packageId {v} = Inr None"
  shows "latest = v"
proof -
  from GetPackageLatestVersion_Some [OF latest] obtain row rest c where
    s: "Search index packageId = row # rest" and
    m: "(latest, c) \<in> set (GetVersionKeysById index row)" and
    k: "\<not> IsUnknown latest"
    by blast
  from none s have "\<forall>w \<in> set (GetVersionKeysById index row). fst w \<in> {v} \<or> IsUnknown (fst w)"
    by (simp add: GetPackageLatestVersion_None_iff)
  with m have "latest \<in> {v} \<or> IsUnknown latest" by force
  with k show ?thesis by simp
qed

text \<open>A version stored for the package, whatever its channel, is at most the latest.\<close>

lemma stored_le_latest:
  assumes stored: "\<exists>packageRowId rest c.
                     Search index packageId = packageRowId # rest
                     \<and> (v, c) \<in> set (GetVersionKeysById index packageRowId)"
      and latest: "GetPackageLatestVersion index packageId {} = Inr (Some (h, latest))"
  shows "v \<le> latest"
proof -
  from GetPackageLatestVersion_Some [OF latest] obtain row rest where
    s: "Search index packageId = row # rest" and
    m: "\<forall>w \<in> set (GetVersionKeysById index row). fst w \<notin> {} \<longrightarrow> fst w \<le> latest"
    by blast
  from stored s obtain c where "(v, c) \<in> set (GetVersionKeysById index row)" by auto
  with m show ?thesis by force
qed

lemma stored_latest:
  assumes stored: "\<exists>packageRowId rest c.
                     Search index packageId = packageRowId # rest
                     \<and> (v, c) \<in> set (GetVersionKeysById index packageRowId)"
      and latest: "GetPackageLatestVersion index packageId {} = Inr (Some (h, latest))"
      and nless: "\<not> v < latest"
  shows "latest = v"
  using stored_le_latest [OF stored latest] nless by simp

text \<open>
  Claim C10. A manifest whose package identifier has no recorded dependents is deleted
  successfully, and the call makes no call of the version resolver at all: the check that
  raises the missing-package error is never reached, also when the package is absent from
  the index.
\<close>

theorem delete_without_dependents:
  assumes "GetDependentsById index (Manifest.Id manifest) = []"
  shows "VerifyDependenciesStructureForManifestDelete index manifest = (Inr True, [])"
  using assms by (simp add: VerifyDependenciesStructureForManifestDelete_def)

text \<open>
  The theorem at a package that the example index does not hold.
\<close>

theorem delete_without_dependents_witness:
  "GetPackageLatestVersion example_index ''Q'' {} = Inr None
   \<and> VerifyDependenciesStructureForManifestDelete example_index (example_manifest ''Q'' 1)
       = (Inr True, [])"
proof -
  have h: "GetDependentsById example_index (Manifest.Id (example_manifest ''Q'' 1)) = []"
    by (simp add: example_defs)
  show ?thesis
    using delete_without_dependents [OF h]
    by (simp add: example_defs eval_defs)
qed

text \<open>
  Claim C6. When the dependents of the package can be read and the version being
  deleted is strictly less than the current latest version of the package, the call
  succeeds, whatever the dependents are and whatever they require.
\<close>

theorem delete_non_latest_succeeds:
  assumes infos: "dependentManifestInfoToVersionPair index
                    (GetDependentsById index (Manifest.Id manifest)) = Inr infos"
      and latest: "GetPackageLatestVersion index (Manifest.Id manifest) {} = Inr (Some (h, latest))"
      and less: "Manifest.Version manifest < latest"
  shows "fst (VerifyDependenciesStructureForManifestDelete index manifest) = Inr True"
  using assms by (simp add: VerifyDependenciesStructureForManifestDelete_def resolveLatest_def Let_def)

text \<open>
  Deleting version 1 of \<open>P\<close>, whose latest version is 2.
\<close>

theorem delete_non_latest_succeeds_witness:
  "fst (VerifyDependenciesStructureForManifestDelete example_index (example_manifest ''P'' 1))
     = Inr True"
proof -
  let ?m = "example_manifest ''P'' 1"
  have a: "dependentManifestInfoToVersionPair example_index
             (GetDependentsById example_index (Manifest.Id ?m))
           = Inr [(\<lparr>DependentManifestInfo.Id = ''D1'', DependentManifestInfo.Version = ''1.0''\<rparr>, 1),
                  (\<lparr>DependentManifestInfo.Id = ''D2'', DependentManifestInfo.Version = ''3.1''\<rparr>, 2)]"
    by (simp add: example_defs)
  have b: "GetPackageLatestVersion example_index (Manifest.Id ?m) {} = Inr (Some (12, 2))"
    by (simp add: example_defs eval_defs)
  have c: "Manifest.Version ?m < 2" by (simp add: example_defs)
  show ?thesis by (rule delete_non_latest_succeeds [OF a b c])
qed

text \<open>
  Claim C5. When the package has at least one dependent, resolves to a latest version,
  and has no latest version once the version being deleted is excluded, the call fails with
  the single-version error, and the message lists every dependent of the index, in order,
  each as identifier, dot, version.
\<close>

theorem delete_only_version_fails:
  assumes deps: "GetDependentsById index (Manifest.Id manifest) \<noteq> []"
      and infos: "dependentManifestInfoToVersionPair index
                    (GetDependentsById index (Manifest.Id manifest)) = Inr infos"
      and latest: "GetPackageLatestVersion index (Manifest.Id manifest) {} = Inr (Some (h, latest))"
      and none: "GetPackageLatestVersion index (Manifest.Id manifest) {Manifest.Version manifest}
                   = Inr None"
  shows "fst (VerifyDependenciesStructureForManifestDelete index manifest)
           = Inl (ManifestException
                    [ValidationError SingleManifestPackageHasDependencies
                       ([CHR 0x0A] @ dependentPackage (hd infos)
                          @ concat (map (\<lambda>c. '', '' @ dependentPackage c) (tl infos)))])
         \<and> length infos = length (GetDependentsById index (Manifest.Id manifest))
         \<and> (\<forall>i < length infos.
               GetPropertyByManifestId index
                   (fst (GetDependentsById index (Manifest.Id manifest) ! i)) Property_Id
                 = Some (DependentManifestInfo.Id (fst (infos ! i)))
             \<and> GetPropertyByManifestId index
                   (fst (GetDependentsById index (Manifest.Id manifest) ! i)) Property_Version
                 = Some (DependentManifestInfo.Version (fst (infos ! i))))"
proof -
  have eq: "latest = Manifest.Version manifest"
    using latest none by (rule only_version_is_latest)
  have ne: "infos \<noteq> []"
    using deps dependentManifestInfoToVersionPair_empty [OF infos] by simp
  then obtain d ds where dds: "infos = d # ds" by (cases infos) auto
  have "fst (VerifyDependenciesStructureForManifestDelete index manifest)
          = Inl (ThrowOnManifestValidationFailed infos SingleManifestPackageHasDependencies)"
    using deps infos latest none eq
    by (simp add: VerifyDependenciesStructureForManifestDelete_def resolveLatest_def Let_def)
  then have "fst (VerifyDependenciesStructureForManifestDelete index manifest)
           = Inl (ManifestException
                    [ValidationError SingleManifestPackageHasDependencies
                       ([CHR 0x0A] @ dependentPackage (hd infos)
                          @ concat (map (\<lambda>c. '', '' @ dependentPackage c) (tl infos)))])"
    using dds by (simp only: ThrowOnManifestValidationFailed_message list.sel)
  then show ?thesis
    using dependentManifestInfoToVersionPair_Inr [OF infos] by simp
qed

text \<open>
  Deleting the only version of \<open>P\<close>: both dependents are listed.
\<close>

theorem delete_only_version_fails_witness:
  "fst (VerifyDependenciesStructureForManifestDelete example_index_single (example_manifest ''P'' 1))
     = Inl (ManifestException
              [ValidationError SingleManifestPackageHasDependencies
                 (CHR 0x0A # ''D1.1.0, D2.3.1'')])"
proof -
  let ?m = "example_manifest ''P'' 1"
  have a: "GetDependentsById example_index_single (Manifest.Id ?m) \<noteq> []"
    by (simp add: example_defs)
  have b: "dependentManifestInfoToVersionPair example_index_single
             (GetDependentsById example_index_single (Manifest.Id ?m))
           = Inr [(\<lparr>DependentManifestInfo.Id = ''D1'', DependentManifestInfo.Version = ''1.0''\<rparr>, 1),
                  (\<lparr>DependentManifestInfo.Id = ''D2'', DependentManifestInfo.Version = ''3.1''\<rparr>, 2)]"
    by (simp add: example_defs)
  have c: "GetPackageLatestVersion example_index_single (Manifest.Id ?m) {} = Inr (Some (11, 1))"
    by (simp add: example_defs eval_defs)
  have d: "GetPackageLatestVersion example_index_single (Manifest.Id ?m) {Manifest.Version ?m}
             = Inr None"
    by (simp add: example_defs eval_defs)
  show ?thesis
    using delete_only_version_fails [OF a b c d] by (simp add: dependentPackage_def)
qed

text \<open>
  Claim C4. Let the manifest being deleted be stored in the index, with a version that is
  not less than the latest, and let a successor latest exist: the latest version once the
  deleted one is excluded. Then the call fails exactly when some dependent requires more
  than the successor, and the message of the error lists exactly the dependents that do,
  in index order, each as identifier, dot, version; a dependent that requires no more than
  the successor is not listed; if there is none that requires more, the call succeeds. The
  dependents are all those the index records, each with the minimum it requires.
\<close>

theorem delete_latest_breaking_dependents:
  assumes deps: "GetDependentsById index (Manifest.Id manifest) \<noteq> []"
      and infos: "dependentManifestInfoToVersionPair index
                    (GetDependentsById index (Manifest.Id manifest)) = Inr infos"
      and stored: "\<exists>packageRowId rest c.
                     Search index (Manifest.Id manifest) = packageRowId # rest
                     \<and> (Manifest.Version manifest, c) \<in> set (GetVersionKeysById index packageRowId)"
      and latest: "GetPackageLatestVersion index (Manifest.Id manifest) {} = Inr (Some (h, latest))"
      and nless: "\<not> Manifest.Version manifest < latest"
      and successor: "GetPackageLatestVersion index (Manifest.Id manifest)
                        {Manifest.Version manifest} = Inr (Some (h', successor))"
  shows "fst (VerifyDependenciesStructureForManifestDelete index manifest)
           = (if \<exists>d \<in> set infos. successor < snd d
              then Inl (ManifestException
                          [ValidationError MultiManifestPackageHasDependencies
                             ([CHR 0x0A]
                              @ dependentPackage (hd (filter (\<lambda>d. successor < snd d) infos))
                              @ concat (map (\<lambda>c. '', '' @ dependentPackage c)
                                          (tl (filter (\<lambda>d. successor < snd d) infos))))])
              else Inr True)
         \<and> length infos = length (GetDependentsById index (Manifest.Id manifest))
         \<and> (\<forall>i < length infos.
               GetPropertyByManifestId index
                   (fst (GetDependentsById index (Manifest.Id manifest) ! i)) Property_Id
                 = Some (DependentManifestInfo.Id (fst (infos ! i)))
             \<and> GetPropertyByManifestId index
                   (fst (GetDependentsById index (Manifest.Id manifest) ! i)) Property_Version
                 = Some (DependentManifestInfo.Version (fst (infos ! i)))
             \<and> snd (infos ! i) = snd (GetDependentsById index (Manifest.Id manifest) ! i))"
proof -
  let ?breaking = "filter (\<lambda>d. successor < snd d) infos"
  have eq: "latest = Manifest.Version manifest"
    using stored latest nless by (rule stored_latest)
  have nless': "\<not> Manifest.Version manifest < Manifest.Version manifest" by simp
  have empty: "?breaking = [] \<longleftrightarrow> \<not> (\<exists>d \<in> set infos. successor < snd d)"
    by (simp add: filter_empty_conv)
  have code: "fst (VerifyDependenciesStructureForManifestDelete index manifest)
           = (if \<exists>d \<in> set infos. successor < snd d
              then Inl (ThrowOnManifestValidationFailed ?breaking
                          MultiManifestPackageHasDependencies)
              else Inr True)"
    using deps infos latest [unfolded eq] nless' successor empty
    by (simp add: VerifyDependenciesStructureForManifestDelete_def resolveLatest_def Let_def)
  have message: "(\<exists>d \<in> set infos. successor < snd d) \<Longrightarrow>
      ThrowOnManifestValidationFailed ?breaking MultiManifestPackageHasDependencies
        = ManifestException
            [ValidationError MultiManifestPackageHasDependencies
               ([CHR 0x0A] @ dependentPackage (hd ?breaking)
                @ concat (map (\<lambda>c. '', '' @ dependentPackage c) (tl ?breaking)))]"
  proof -
    assume "\<exists>d \<in> set infos. successor < snd d"
    then have "?breaking \<noteq> []" using empty by simp
    then obtain d ds where dds: "?breaking = d # ds" by (cases ?breaking) auto
    show ?thesis unfolding dds by (simp only: ThrowOnManifestValidationFailed_message list.sel)
  qed
  have first: "fst (VerifyDependenciesStructureForManifestDelete index manifest)
           = (if \<exists>d \<in> set infos. successor < snd d
              then Inl (ManifestException
                          [ValidationError MultiManifestPackageHasDependencies
                             ([CHR 0x0A] @ dependentPackage (hd ?breaking)
                              @ concat (map (\<lambda>c. '', '' @ dependentPackage c) (tl ?breaking)))])
              else Inr True)"
  proof (cases "\<exists>d \<in> set infos. successor < snd d")
    case True
    then show ?thesis using code message by (simp only: if_True)
  next
    case False
    then show ?thesis using code by (simp only: if_False)
  qed
  show ?thesis
    using first dependentManifestInfoToVersionPair_Inr [OF infos] by simp
qed

text \<open>
  Deleting version 2 of \<open>P\<close> with three dependents: the successor is 1, \<open>D2\<close> and
  \<open>D3\<close> require 2 and are both listed, \<open>D1\<close> requires 1 and is not.
\<close>

theorem delete_latest_breaking_dependents_witness:
  "fst (VerifyDependenciesStructureForManifestDelete example_index_three (example_manifest ''P'' 2))
     = Inl (ManifestException
              [ValidationError MultiManifestPackageHasDependencies
                 (CHR 0x0A # ''D2.3.1, D3.0.9'')])"
proof -
  let ?m = "example_manifest ''P'' 2"
  let ?infos =
    "[(\<lparr>DependentManifestInfo.Id = ''D1'', DependentManifestInfo.Version = ''1.0''\<rparr>, 1::nat),
      (\<lparr>DependentManifestInfo.Id = ''D2'', DependentManifestInfo.Version = ''3.1''\<rparr>, 2),
      (\<lparr>DependentManifestInfo.Id = ''D3'', DependentManifestInfo.Version = ''0.9''\<rparr>, 2)]"
  have a: "GetDependentsById example_index_three (Manifest.Id ?m) \<noteq> []"
    by (simp add: example_index_three_def example_defs)
  have b: "dependentManifestInfoToVersionPair example_index_three
             (GetDependentsById example_index_three (Manifest.Id ?m))
           = Inr ?infos"
    by (simp add: example_index_three_def example_defs)
  have s: "\<exists>packageRowId rest c.
              Search example_index_three (Manifest.Id ?m) = packageRowId # rest
              \<and> (Manifest.Version ?m, c)
                  \<in> set (GetVersionKeysById example_index_three packageRowId)"
    by (simp add: example_index_three_def example_defs)
  have c: "GetPackageLatestVersion example_index_three (Manifest.Id ?m) {} = Inr (Some (12, 2))"
    by (simp add: example_index_three_def example_defs eval_defs)
  have d: "\<not> Manifest.Version ?m < 2" by (simp add: example_defs)
  have e: "GetPackageLatestVersion example_index_three (Manifest.Id ?m) {Manifest.Version ?m}
             = Inr (Some (11, 1))"
    by (simp add: example_index_three_def example_defs eval_defs)
  have "fst (VerifyDependenciesStructureForManifestDelete example_index_three ?m)
          = (if \<exists>d \<in> set ?infos.
                 1 < snd d
             then Inl (ManifestException
                         [ValidationError MultiManifestPackageHasDependencies
                            ([CHR 0x0A]
                             @ dependentPackage (hd (filter (\<lambda>d. 1 < snd d)
                                 ?infos))
                             @ concat (map (\<lambda>c. '', '' @ dependentPackage c)
                                 (tl (filter (\<lambda>d. 1 < snd d)
                                 ?infos))))])
             else Inr True)"
    using delete_latest_breaking_dependents [OF a b s c d e] by (rule conjunct1)
  then show ?thesis by (simp add: dependentPackage_def)
qed

text \<open>
  Claim C1. Let the manifest being deleted be stored in the index (the code takes this
  for granted, lines 207-208), with a version that is not strictly less than the current
  latest. Then the resolver is called a second time, and the second call receives the
  exclusion set that holds the version being deleted and nothing else; the outcome of the
  call is decided by what the resolver returns for that exclusion set.
\<close>

theorem delete_successor_exclusions:
  assumes deps: "GetDependentsById index (Manifest.Id manifest) \<noteq> []"
      and infos: "dependentManifestInfoToVersionPair index
                    (GetDependentsById index (Manifest.Id manifest)) = Inr infos"
      and stored: "\<exists>packageRowId rest c.
                     Search index (Manifest.Id manifest) = packageRowId # rest
                     \<and> (Manifest.Version manifest, c) \<in> set (GetVersionKeysById index packageRowId)"
      and latest: "GetPackageLatestVersion index (Manifest.Id manifest) {} = Inr (Some (h, latest))"
      and nless: "\<not> Manifest.Version manifest < latest"
  shows "snd (VerifyDependenciesStructureForManifestDelete index manifest)
           = [(Manifest.Id manifest, {}), (Manifest.Id manifest, {Manifest.Version manifest})]
       \<and> fst (VerifyDependenciesStructureForManifestDelete index manifest)
           = (case GetPackageLatestVersion index (Manifest.Id manifest)
                     {Manifest.Version manifest} of
                Inl e \<Rightarrow> Inl e
              | Inr None \<Rightarrow>
                  Inl (ThrowOnManifestValidationFailed infos SingleManifestPackageHasDependencies)
              | Inr (Some successor) \<Rightarrow>
                  if \<exists>d \<in> set infos. snd successor < snd d
                  then Inl (ThrowOnManifestValidationFailed
                              (filter (\<lambda>d. snd successor < snd d) infos)
                              MultiManifestPackageHasDependencies)
                  else Inr True)"
proof -
  have eq: "latest = Manifest.Version manifest"
    using stored latest nless by (rule stored_latest)
  have nless': "\<not> Manifest.Version manifest < Manifest.Version manifest" by simp
  have f: "\<And>s. filter (\<lambda>d. s < snd d) infos = [] \<longleftrightarrow> \<not> (\<exists>d \<in> set infos. s < snd d)"
    by (simp add: filter_empty_conv)
  show ?thesis
    using deps infos latest [unfolded eq] nless' f
    by (simp add: VerifyDependenciesStructureForManifestDelete_def resolveLatest_def Let_def
             split: sum.splits option.splits)
qed

text \<open>
  Deleting version 2 of \<open>P\<close>: the second call excludes version 2, resolves to
  version 1, and \<open>D2\<close>, which requires 2, is reported.
\<close>

theorem delete_successor_exclusions_witness:
  "snd (VerifyDependenciesStructureForManifestDelete example_index (example_manifest ''P'' 2))
     = [(''P'', {}), (''P'', {2})]
   \<and> GetPackageLatestVersion example_index ''P'' {2} = Inr (Some (11, 1))
   \<and> fst (VerifyDependenciesStructureForManifestDelete example_index (example_manifest ''P'' 2))
     = Inl (ManifestException
              [ValidationError MultiManifestPackageHasDependencies (CHR 0x0A # ''D2.3.1'')])"
proof -
  let ?m = "example_manifest ''P'' 2"
  have a: "GetDependentsById example_index (Manifest.Id ?m) \<noteq> []"
    by (simp add: example_defs)
  have b: "dependentManifestInfoToVersionPair example_index
             (GetDependentsById example_index (Manifest.Id ?m))
           = Inr [(\<lparr>DependentManifestInfo.Id = ''D1'', DependentManifestInfo.Version = ''1.0''\<rparr>, 1),
                  (\<lparr>DependentManifestInfo.Id = ''D2'', DependentManifestInfo.Version = ''3.1''\<rparr>, 2)]"
    by (simp add: example_defs)
  have s: "\<exists>packageRowId rest c.
              Search example_index (Manifest.Id ?m) = packageRowId # rest
              \<and> (Manifest.Version ?m, c) \<in> set (GetVersionKeysById example_index packageRowId)"
    by (simp add: example_defs)
  have c: "GetPackageLatestVersion example_index (Manifest.Id ?m) {} = Inr (Some (12, 2))"
    by (simp add: example_defs eval_defs)
  have d: "\<not> Manifest.Version ?m < 2" by (simp add: example_defs)
  have e: "GetPackageLatestVersion example_index ''P'' {2} = Inr (Some (11, 1))"
    by (simp add: example_defs eval_defs)
  have i: "Manifest.Id ?m = ''P''" "Manifest.Version ?m = 2" by (simp_all add: example_defs)
  show ?thesis
    using delete_successor_exclusions [OF a b s c d]
    by (simp add: i e dependentPackage_def)
qed


section \<open>The dependencies a manifest declares\<close>

lemma set_Add_subset: "set (Add policy d ds) \<subseteq> insert d (set ds)"
  by (induction ds) (auto split: DuplicatePolicy.splits)

lemma Id_Add:
  "Dependency.Id ` set (Add policy d ds) = insert (Dependency.Id d) (Dependency.Id ` set ds)"
  by (induction ds) (auto simp: sameTarget_def split: DuplicatePolicy.splits)


lemma distinct_Add:
  assumes "\<forall>x \<in> set ds. Type x = Type d" and "distinct (map Dependency.Id ds)"
  shows "distinct (map Dependency.Id (Add policy d ds))"
  using assms
proof (induction ds)
  case Nil
  show ?case by simp
next
  case (Cons x ds)
  have tl: "\<forall>y \<in> set ds. Type y = Type d" using Cons.prems(1) by simp
  have dtl: "distinct (map Dependency.Id ds)" using Cons.prems(2) by simp
  have notin: "Dependency.Id x \<notin> Dependency.Id ` set ds" using Cons.prems(2) by simp
  have ih: "distinct (map Dependency.Id (Add policy d ds))"
    by (rule Cons.IH [OF tl dtl])
  show ?case
  proof (cases "sameTarget x d")
    case True
    have eq: "Add policy d (x # ds) = (case policy of KeepExisting \<Rightarrow> x | Overwrite \<Rightarrow> d) # ds"
      using True by simp
    have "Dependency.Id (case policy of KeepExisting \<Rightarrow> x | Overwrite \<Rightarrow> d) = Dependency.Id x"
      using True by (cases policy) (simp_all add: sameTarget_def)
    then show ?thesis unfolding eq using notin dtl by simp
  next
    case False
    have eq: "Add policy d (x # ds) = x # Add policy d ds"
      using False by simp
    have "Type x = Type d" using Cons.prems(1) by simp
    then have "Dependency.Id x \<noteq> Dependency.Id d"
      using False by (simp add: sameTarget_def)
    then have "Dependency.Id x \<notin> Dependency.Id ` set (Add policy d ds)"
      using notin by (simp add: Id_Add)
    then show ?thesis unfolding eq using ih by simp
  qed
qed


lemma foldl_Add_Type:
  assumes "\<forall>x \<in> set acc. Type x = t" and "\<forall>x \<in> set new. Type x = t"
  shows "\<forall>x \<in> set (foldl (\<lambda>depList dependency. Add policy dependency depList) acc new). Type x = t"
  using assms
proof (induction new arbitrary: acc)
  case Nil
  then show ?case by simp
next
  case (Cons d new)
  have "set (Add policy d acc) \<subseteq> insert d (set acc)" by (rule set_Add_subset)
  moreover have "Type d = t" using Cons.prems(2) by simp
  ultimately have a: "\<forall>x \<in> set (Add policy d acc). Type x = t" using Cons.prems(1) by blast
  have b: "\<forall>x \<in> set new. Type x = t" using Cons.prems(2) by simp
  show ?case using Cons.IH [OF a b] by simp
qed

lemma foldl_Add_subset:
  "set (foldl (\<lambda>depList dependency. Add policy dependency depList) acc new) \<subseteq> set acc \<union> set new"
proof (induction new arbitrary: acc)
  case Nil
  show ?case by simp
next
  case (Cons d new)
  have "set (foldl (\<lambda>depList dependency. Add policy dependency depList) (Add policy d acc) new)
          \<subseteq> set (Add policy d acc) \<union> set new" by (rule Cons.IH)
  also have "\<dots> \<subseteq> insert d (set acc) \<union> set new"
    using set_Add_subset [of policy d acc] by blast
  finally show ?case by simp
qed

lemma foldl_Add_Id:
  "Dependency.Id ` set (foldl (\<lambda>depList dependency. Add policy dependency depList) acc new)
     = Dependency.Id ` set acc \<union> Dependency.Id ` set new"
proof (induction new arbitrary: acc)
  case Nil
  show ?case by simp
next
  case (Cons d new)
  have "Dependency.Id ` set (foldl (\<lambda>depList dependency. Add policy dependency depList)
                               (Add policy d acc) new)
          = Dependency.Id ` set (Add policy d acc) \<union> Dependency.Id ` set new" by (rule Cons.IH)
  also have "\<dots> = insert (Dependency.Id d) (Dependency.Id ` set acc) \<union> Dependency.Id ` set new"
    by (simp only: Id_Add)
  finally show ?case by simp
qed

lemma foldl_Add_distinct:
  assumes "\<forall>x \<in> set acc. Type x = t" and "\<forall>x \<in> set new. Type x = t"
      and "distinct (map Dependency.Id acc)"
  shows "distinct (map Dependency.Id
                     (foldl (\<lambda>depList dependency. Add policy dependency depList) acc new))"
  using assms
proof (induction new arbitrary: acc)
  case Nil
  then show ?case by simp
next
  case (Cons d new)
  have td: "Type d = t" using Cons.prems(2) by simp
  have "set (Add policy d acc) \<subseteq> insert d (set acc)" by (rule set_Add_subset)
  then have a: "\<forall>x \<in> set (Add policy d acc). Type x = t" using td Cons.prems(1) by blast
  have b: "\<forall>x \<in> set new. Type x = t" using Cons.prems(2) by simp
  have "\<forall>x \<in> set acc. Type x = Type d" using td Cons.prems(1) by simp
  then have c: "distinct (map Dependency.Id (Add policy d acc))"
    using Cons.prems(3) by (rule distinct_Add)
  show ?case using Cons.IH [OF a b c] by simp
qed


lemma ApplyToType_Type: "\<forall>x \<in> set (ApplyToType depList t). Type x = t"
  by (simp add: ApplyToType_def)

lemma gather_Type:
  assumes "\<forall>x \<in> set acc. Type x = t"
  shows "\<forall>x \<in> set (foldl (\<lambda>depList installer.
              foldl (\<lambda>depList dependency. Add policy dependency depList) depList
                (ApplyToType (Dependencies installer) t)) acc installers). Type x = t"
  using assms
proof (induction installers arbitrary: acc)
  case Nil
  then show ?case by simp
next
  case (Cons i installers)
  have "\<forall>x \<in> set (foldl (\<lambda>depList dependency. Add policy dependency depList) acc
                      (ApplyToType (Dependencies i) t)). Type x = t"
    using Cons.prems ApplyToType_Type by (rule foldl_Add_Type)
  from Cons.IH [OF this] show ?case by simp
qed

lemma gather_distinct:
  assumes "\<forall>x \<in> set acc. Type x = t" and "distinct (map Dependency.Id acc)"
  shows "distinct (map Dependency.Id (foldl (\<lambda>depList installer.
              foldl (\<lambda>depList dependency. Add policy dependency depList) depList
                (ApplyToType (Dependencies installer) t)) acc installers))"
  using assms
proof (induction installers arbitrary: acc)
  case Nil
  then show ?case by simp
next
  case (Cons i installers)
  have a: "\<forall>x \<in> set (foldl (\<lambda>depList dependency. Add policy dependency depList) acc
                      (ApplyToType (Dependencies i) t)). Type x = t"
    using Cons.prems(1) ApplyToType_Type by (rule foldl_Add_Type)
  have b: "distinct (map Dependency.Id (foldl (\<lambda>depList dependency. Add policy dependency depList)
                      acc (ApplyToType (Dependencies i) t)))"
    using Cons.prems(1) ApplyToType_Type Cons.prems(2) by (rule foldl_Add_distinct)
  from Cons.IH [OF a b] show ?case by simp
qed

lemma gather_subset:
  "set (foldl (\<lambda>depList installer.
              foldl (\<lambda>depList dependency. Add policy dependency depList) depList
                (ApplyToType (Dependencies installer) t)) acc installers)
     \<subseteq> set acc \<union> (\<Union>installer \<in> set installers. set (ApplyToType (Dependencies installer) t))"
proof (induction installers arbitrary: acc)
  case Nil
  show ?case by simp
next
  case (Cons i installers)
  let ?acc = "foldl (\<lambda>depList dependency. Add policy dependency depList) acc
                (ApplyToType (Dependencies i) t)"
  have "set (foldl (\<lambda>depList installer.
              foldl (\<lambda>depList dependency. Add policy dependency depList) depList
                (ApplyToType (Dependencies installer) t)) ?acc installers)
          \<subseteq> set ?acc \<union> (\<Union>installer \<in> set installers. set (ApplyToType (Dependencies installer) t))"
    by (rule Cons.IH)
  moreover have "set ?acc \<subseteq> set acc \<union> set (ApplyToType (Dependencies i) t)"
    by (rule foldl_Add_subset)
  ultimately show ?case by (simp only: foldl_Cons list.set UN_insert) blast
qed

lemma gather_Id:
  "Dependency.Id ` set (foldl (\<lambda>depList installer.
              foldl (\<lambda>depList dependency. Add policy dependency depList) depList
                (ApplyToType (Dependencies installer) t)) acc installers)
     = Dependency.Id ` set acc
       \<union> (\<Union>installer \<in> set installers. Dependency.Id ` set (ApplyToType (Dependencies installer) t))"
proof (induction installers arbitrary: acc)
  case Nil
  show ?case by simp
next
  case (Cons i installers)
  let ?acc = "foldl (\<lambda>depList dependency. Add policy dependency depList) acc
                (ApplyToType (Dependencies i) t)"
  have "Dependency.Id ` set (foldl (\<lambda>depList installer.
              foldl (\<lambda>depList dependency. Add policy dependency depList) depList
                (ApplyToType (Dependencies installer) t)) ?acc installers)
          = Dependency.Id ` set ?acc
            \<union> (\<Union>installer \<in> set installers.
                  Dependency.Id ` set (ApplyToType (Dependencies installer) t))"
    by (rule Cons.IH)
  moreover have "Dependency.Id ` set ?acc
                   = Dependency.Id ` set acc \<union> Dependency.Id ` set (ApplyToType (Dependencies i) t)"
    by (rule foldl_Add_Id)
  ultimately show ?case by (simp only: foldl_Cons list.set UN_insert) blast
qed

text \<open>
  Claim C8. The expansion function decides by the identifier alone: for every node whose
  identifier is the manifest's, whatever its place in the graph, it returns the manifest's
  own declared dependencies and leaves the state as it was, so it makes no call of the
  version resolver and reads nothing from the index. The list holds only package-kind
  dependencies, each declared by some installer, it covers the target of every package-kind
  dependency of every installer, and no target occurs twice.
\<close>

theorem root_expansion:
  assumes "Dependency.Id node = Manifest.Id manifest"
  shows "expansionCallback policy index manifest node st
           = (Inr (GetDependencies policy manifest Package), st)
       \<and> (\<forall>d \<in> set (GetDependencies policy manifest Package).
             Type d = Package
             \<and> (\<exists>installer \<in> set (Installers manifest). d \<in> set (Dependencies installer)))
       \<and> (\<forall>installer \<in> set (Installers manifest). \<forall>d \<in> set (Dependencies installer).
             Type d = Package \<longrightarrow>
               Dependency.Id d \<in> Dependency.Id ` set (GetDependencies policy manifest Package))
       \<and> distinct (map Dependency.Id (GetDependencies policy manifest Package))"
proof -
  have call: "expansionCallback policy index manifest node st
                = (Inr (GetDependencies policy manifest Package), st)"
    using assms by (simp add: expansionCallback_def)
  have ty: "\<forall>x \<in> set (GetDependencies policy manifest Package). Type x = Package"
    unfolding GetDependencies_def by (rule gather_Type) simp
  have sub: "set (GetDependencies policy manifest Package)
               \<subseteq> (\<Union>installer \<in> set (Installers manifest).
                      set (ApplyToType (Dependencies installer) Package))"
    using gather_subset [of policy Package "[]" "Installers manifest"]
    unfolding GetDependencies_def by simp
  have declared: "\<forall>d \<in> set (GetDependencies policy manifest Package).
                    \<exists>installer \<in> set (Installers manifest). d \<in> set (Dependencies installer)"
  proof
    fix d assume "d \<in> set (GetDependencies policy manifest Package)"
    with sub obtain installer where
      "installer \<in> set (Installers manifest)" "d \<in> set (ApplyToType (Dependencies installer) Package)"
      by auto
    then show "\<exists>installer \<in> set (Installers manifest). d \<in> set (Dependencies installer)"
      by (auto simp: ApplyToType_def)
  qed
  have ids: "Dependency.Id ` set (GetDependencies policy manifest Package)
               = (\<Union>installer \<in> set (Installers manifest).
                    Dependency.Id ` set (ApplyToType (Dependencies installer) Package))"
    using gather_Id [of policy Package "[]" "Installers manifest"]
    unfolding GetDependencies_def by simp
  have all: "\<forall>installer \<in> set (Installers manifest). \<forall>d \<in> set (Dependencies installer).
               Type d = Package \<longrightarrow>
                 Dependency.Id d \<in> Dependency.Id ` set (GetDependencies policy manifest Package)"
  proof (intro ballI impI)
    fix installer d
    assume i: "installer \<in> set (Installers manifest)" and d: "d \<in> set (Dependencies installer)"
       and t: "Type d = Package"
    have "d \<in> set (ApplyToType (Dependencies installer) Package)"
      using d t by (simp add: ApplyToType_def)
    then have "Dependency.Id d \<in> (\<Union>installer \<in> set (Installers manifest).
                    Dependency.Id ` set (ApplyToType (Dependencies installer) Package))"
      using i by blast
    then show "Dependency.Id d \<in> Dependency.Id ` set (GetDependencies policy manifest Package)"
      unfolding ids by simp
  qed
  have dist: "distinct (map Dependency.Id (GetDependencies policy manifest Package))"
    unfolding GetDependencies_def by (rule gather_distinct) simp_all
  show ?thesis
  proof (intro conjI)
    show "expansionCallback policy index manifest node st
            = (Inr (GetDependencies policy manifest Package), st)" by (rule call)
    show "\<forall>d \<in> set (GetDependencies policy manifest Package).
             Type d = Package
             \<and> (\<exists>installer \<in> set (Installers manifest). d \<in> set (Dependencies installer))"
      using ty declared by blast
    show "\<forall>installer \<in> set (Installers manifest). \<forall>d \<in> set (Dependencies installer).
             Type d = Package \<longrightarrow>
               Dependency.Id d \<in> Dependency.Id ` set (GetDependencies policy manifest Package)"
      by (rule all)
    show "distinct (map Dependency.Id (GetDependencies policy manifest Package))" by (rule dist)
  qed
qed

text \<open>
  A manifest whose two installers both require \<open>A\<close>, and one of them a Windows
  feature: one entry for \<open>A\<close>, with either policy, and none for the feature.
\<close>

theorem root_expansion_witness:
  "expansionCallback KeepExisting example_graph_index example_two_installers
      (rootId example_two_installers) initialState
     = (Inr [example_dependency ''A'' 1, example_dependency ''C'' 1], initialState)
   \<and> expansionCallback Overwrite example_graph_index example_two_installers
      (rootId example_two_installers) initialState
     = (Inr [example_dependency ''A'' 2, example_dependency ''C'' 1], initialState)"
proof -
  have h: "Dependency.Id (rootId example_two_installers) = Manifest.Id example_two_installers"
    by (simp add: rootId_def)
  have k: "GetDependencies KeepExisting example_two_installers Package
             = [example_dependency ''A'' 1, example_dependency ''C'' 1]"
    by (simp add: graph_example_defs GetDependencies_def ApplyToType_def sameTarget_def)
  have o: "GetDependencies Overwrite example_two_installers Package
             = [example_dependency ''A'' 2, example_dependency ''C'' 1]"
    by (simp add: graph_example_defs GetDependencies_def ApplyToType_def sameTarget_def)
  from root_expansion [OF h, of KeepExisting example_graph_index initialState]
  have a: "expansionCallback KeepExisting example_graph_index example_two_installers
             (rootId example_two_installers) initialState
           = (Inr (GetDependencies KeepExisting example_two_installers Package), initialState)"
    by (rule conjunct1)
  from root_expansion [OF h, of Overwrite example_graph_index initialState]
  have b: "expansionCallback Overwrite example_graph_index example_two_installers
             (rootId example_two_installers) initialState
           = (Inr (GetDependencies Overwrite example_two_installers Package), initialState)"
    by (rule conjunct1)
  show ?thesis using a b by (simp only: k o)
qed

text \<open>
  Claim C7. For a node that is not the manifest's own, whose package resolves to a latest
  version strictly less than the minimum version the node requires, the expansion function
  records exactly one "no suitable minimum version" error with the node's identifier,
  sets the failure flag and returns the empty list of children.
\<close>

theorem unsatisfied_minimum_version:
  assumes "Dependency.Id node \<noteq> Manifest.Id manifest"
      and "GetPackageLatestVersion index (Dependency.Id node) {} = Inr (Some (h, latest))"
      and "latest < MinVersion node"
  shows "expansionCallback policy index manifest node st
           = (Inr [],
              st\<lparr>resolverCalls := resolverCalls st @ [(Dependency.Id node, {})],
                 dependenciesError := dependenciesError st @
                   [ValidationError NoSuitableMinVersion ('' '' @ Dependency.Id node)],
                 foundErrors := True\<rparr>)"
  using assms by (simp add: expansionCallback_def Let_def)

text \<open>
  Requiring \<open>B\<close> at least 5, where the latest \<open>B\<close> is 3.
\<close>

theorem unsatisfied_minimum_version_witness:
  "expansionCallback KeepExisting example_graph_index example_root (example_dependency ''B'' 5)
      initialState
     = (Inr [],
        \<lparr>dependenciesError = [ValidationError NoSuitableMinVersion '' B''],
         foundErrors = True, resolverCalls = [(''B'', {})]\<rparr>)"
proof -
  have a: "Dependency.Id (example_dependency ''B'' 5) \<noteq> Manifest.Id example_root"
    by (simp add: graph_example_defs)
  have b: "GetPackageLatestVersion example_graph_index (Dependency.Id (example_dependency ''B'' 5)) {}
             = Inr (Some (104, 3))"
    by (simp add: graph_example_defs callback_defs)
  have c: "3 < MinVersion (example_dependency ''B'' 5)"
    by (simp add: graph_example_defs)
  show ?thesis
    using unsatisfied_minimum_version [OF a b c, of KeepExisting initialState]
    by (simp add: graph_example_defs initialState_def)
qed


section \<open>The construction of the graph\<close>

text \<open>
  One step of the construction skips an expanded node, stops at a raise, or expands.
\<close>

lemma BuildGraph_step_cases:
  assumes "queue g \<noteq> []"
  obtains
    (skip) node rest where
      "node \<in> set (queue g)" "set rest \<subseteq> set (queue g)" "length rest < length (queue g)"
      "adjacents g (Dependency.Id node) \<noteq> None"
      "BuildGraph_step pick expand g = g\<lparr>queue := rest\<rparr>"
      "set (queue g) = insert node (set rest)"
  | (raise) node rest e st where
      "node \<in> set (queue g)" "set rest \<subseteq> set (queue g)" "length rest < length (queue g)"
      "adjacents g (Dependency.Id node) = None"
      "expand node (callerState g) = (Inl e, st)"
      "BuildGraph_step pick expand g = g\<lparr>queue := rest, callerState := st, raised := Some e\<rparr>"
      "set (queue g) = insert node (set rest)"
  | (expand) node rest children st where
      "node \<in> set (queue g)" "set rest \<subseteq> set (queue g)" "length rest < length (queue g)"
      "adjacents g (Dependency.Id node) = None"
      "expand node (callerState g) = (Inr children, st)"
      "BuildGraph_step pick expand g =
         g\<lparr>queue := rest @ filter (\<lambda>c. ((adjacents g)(Dependency.Id node \<mapsto> children))
                                        (Dependency.Id c) = None) children,
           adjacents := (adjacents g)(Dependency.Id node \<mapsto> children),
           nodes := nodes g @ [node],
           callerState := st\<rparr>"
      "set (queue g) = insert node (set rest)"
proof -
  define i where "i = pick (queue g) mod length (queue g)"
  define node where "node = queue g ! i"
  define rest where "rest = take i (queue g) @ drop (Suc i) (queue g)"
  have i: "i < length (queue g)" using assms by (simp add: i_def)
  have n: "node \<in> set (queue g)" using i by (simp add: node_def)
  have r: "set rest \<subseteq> set (queue g)"
    using set_take_subset [of i "queue g"] set_drop_subset [of "Suc i" "queue g"]
    by (auto simp: rest_def)
  have l: "length rest < length (queue g)" using i by (simp add: rest_def)
  have "queue g = take i (queue g) @ node # drop (Suc i) (queue g)"
    unfolding node_def using i by (rule id_take_nth_drop)
  then have "set (queue g) = set (take i (queue g) @ node # drop (Suc i) (queue g))" by simp
  then have q: "set (queue g) = insert node (set rest)" by (simp add: rest_def)
  show ?thesis
  proof (cases "adjacents g (Dependency.Id node) = None")
    case False
    then have "BuildGraph_step pick expand g = g\<lparr>queue := rest\<rparr>"
      by (simp add: BuildGraph_step_def Let_def i_def node_def rest_def)
    with n r l False show ?thesis using q by (intro skip [of node rest]) simp_all
  next
    case True
    obtain res st where e: "expand node (callerState g) = (res, st)"
      by (cases "expand node (callerState g)")
    show ?thesis
    proof (cases res)
      case (Inl err)
      have "BuildGraph_step pick expand g = g\<lparr>queue := rest, callerState := st, raised := Some err\<rparr>"
        using True e Inl
        by (simp add: BuildGraph_step_def Let_def i_def [symmetric] node_def [symmetric]
              rest_def [symmetric])
      with n r l True e Inl q show ?thesis by (intro raise [of node rest err st]) simp_all
    next
      case (Inr children)
      have "BuildGraph_step pick expand g =
         g\<lparr>queue := rest @ filter (\<lambda>c. ((adjacents g)(Dependency.Id node \<mapsto> children))
                                        (Dependency.Id c) = None) children,
           adjacents := (adjacents g)(Dependency.Id node \<mapsto> children),
           nodes := nodes g @ [node],
           callerState := st\<rparr>"
        using True e Inr
        by (simp add: BuildGraph_step_def Let_def i_def [symmetric] node_def [symmetric]
              rest_def [symmetric])
      with n r l True e Inr q show ?thesis by (intro expand [of node rest children st]) simp_all
    qed
  qed
qed

text \<open>
  The construction ends when the nodes that expansion can reach have finitely many
  identifiers: each step expands a new identifier or shortens the queue.
\<close>

lemma BuildGraph_terminates:
  assumes fin: "finite (Dependency.Id ` N)"
      and closed: "\<And>node st children st'.
                     node \<in> N \<Longrightarrow> expand node st = (Inr children, st')
                       \<Longrightarrow> set children \<subseteq> N"
      and init: "set (queue g) \<subseteq> N"
  shows "\<exists>g'. BuildGraph pick expand g = Some g'"
  unfolding BuildGraph_def
proof (rule wf_rel_while_option_Some
         [where P = "\<lambda>g. set (queue g) \<subseteq> N"
            and R = "inv_image (less_than <*lex*> less_than)
                       (\<lambda>g. (card (Dependency.Id ` N - dom (adjacents g)), length (queue g)))"])
  show "wf (inv_image (less_than <*lex*> less_than)
              (\<lambda>g. (card (Dependency.Id ` N - dom (adjacents g)), length (queue g))))"
    by (intro wf_inv_image wf_lex_prod wf_less_than)
next
  show "set (queue g) \<subseteq> N" by (rule init)
next
  fix s :: "('a, 'b) DependencyGraph"
  assume a: "set (queue s) \<subseteq> N \<and> queue s \<noteq> [] \<and> raised s = None"
  then have ne: "queue s \<noteq> []" by simp
  from ne show "set (queue (BuildGraph_step pick expand s)) \<subseteq> N"
  proof (cases rule: BuildGraph_step_cases [where pick = pick and expand = expand])
    case (skip node rest)
    then show ?thesis using a by auto
  next
    case (raise node rest e st)
    then show ?thesis using a by auto
  next
    case (expand node rest children st)
    have "node \<in> N" using expand(1) a by blast
    then have c: "set children \<subseteq> N" using expand(5) by (rule closed)
    have "set (queue (BuildGraph_step pick expand s)) \<subseteq> set rest \<union> set children"
      unfolding expand(6) by auto
    also have "\<dots> \<subseteq> set (queue s) \<union> set children" using expand(2) by blast
    finally show ?thesis using c a by blast
  qed
next
  fix s :: "('a, 'b) DependencyGraph"
  assume a: "set (queue s) \<subseteq> N \<and> queue s \<noteq> [] \<and> raised s = None"
  then have ne: "queue s \<noteq> []" by simp
  from ne show "(BuildGraph_step pick expand s, s)
          \<in> inv_image (less_than <*lex*> less_than)
               (\<lambda>g. (card (Dependency.Id ` N - dom (adjacents g)), length (queue g)))"
  proof (cases rule: BuildGraph_step_cases [where pick = pick and expand = expand])
    case (skip node rest)
    then show ?thesis by simp
  next
    case (raise node rest e st)
    then show ?thesis by simp
  next
    case (expand node rest children st)
    have inN: "Dependency.Id node \<in> Dependency.Id ` N" using expand(1) a by blast
    have notin: "Dependency.Id node \<notin> dom (adjacents s)" using expand(4) by (simp add: domIff)
    have eq: "Dependency.Id ` N - dom ((adjacents s)(Dependency.Id node \<mapsto> children))
            = (Dependency.Id ` N - dom (adjacents s)) - {Dependency.Id node}"
      by auto
    have mem: "Dependency.Id node \<in> Dependency.Id ` N - dom (adjacents s)"
      using inN notin by simp
    have finite: "finite (Dependency.Id ` N - dom (adjacents s))" using fin by simp
    have "card ((Dependency.Id ` N - dom (adjacents s)) - {Dependency.Id node})
            < card (Dependency.Id ` N - dom (adjacents s))"
      using finite mem by (rule card_Diff1_less)
    then have "card (Dependency.Id ` N - dom ((adjacents s)(Dependency.Id node \<mapsto> children)))
                 < card (Dependency.Id ` N - dom (adjacents s))"
      by (simp only: eq)
    then show ?thesis using expand(6) by simp
  qed
qed

lemma expansionCallback_state:
  assumes "expansionCallback policy index manifest node st = (r, st')"
  shows "dependenciesError st' = dependenciesError st @ recordedErrors policy index manifest node"
    and "foundErrors st' \<longleftrightarrow> foundErrors st \<or> recordedErrors policy index manifest node \<noteq> []"
    and "r = fst (expansionCallback policy index manifest node initialState)"
  using assms
  by (auto simp: expansionCallback_def recordedErrors_def initialState_def Let_def
           split: sum.splits option.splits if_splits)

lemma recordedErrors_structural:
  "\<forall>e \<in> set (recordedErrors policy index manifest node). structuralError e"
  by (auto simp: expansionCallback_def recordedErrors_def initialState_def Let_def
           split: sum.splits option.splits if_splits)

lemma recordedErrors_raise:
  "fst (expansionCallback policy index manifest node initialState) = Inl e
     \<Longrightarrow> recordedErrors policy index manifest node = []"
  by (auto simp: expansionCallback_def recordedErrors_def initialState_def Let_def
           split: sum.splits option.splits if_splits)


text \<open>What holds of the caller's state throughout the construction.\<close>

lemma BuildGraph_step_errors:
  assumes ne: "queue g \<noteq> []"
      and inv: "dependenciesError (callerState g)
                  = concat (map (recordedErrors policy index manifest) (nodes g))
                \<and> (foundErrors (callerState g) \<longleftrightarrow> dependenciesError (callerState g) \<noteq> [])"
  shows "dependenciesError (callerState (BuildGraph_step pick (expansionCallback policy index manifest) g))
           = concat (map (recordedErrors policy index manifest)
                       (nodes (BuildGraph_step pick (expansionCallback policy index manifest) g)))
         \<and> (foundErrors (callerState (BuildGraph_step pick (expansionCallback policy index manifest) g))
              \<longleftrightarrow> dependenciesError
                     (callerState (BuildGraph_step pick (expansionCallback policy index manifest) g))
                   \<noteq> [])"
  using ne
proof (cases rule: BuildGraph_step_cases
         [where pick = pick and expand = "expansionCallback policy index manifest"])
  case (skip node rest)
  then show ?thesis using inv by simp
next
  case (raise node rest e st)
  note eff = expansionCallback_state [OF raise(5)]
  have "recordedErrors policy index manifest node = []"
    using eff(3) by (intro recordedErrors_raise [of _ _ _ _ e]) simp
  then show ?thesis using inv eff(1,2) raise(6) by simp
next
  case (expand node rest children st)
  note eff = expansionCallback_state [OF expand(5)]
  show ?thesis using inv eff(1,2) expand(6) by simp
qed

lemma BuildGraph_errors:
  assumes "BuildGraph pick (expansionCallback policy index manifest)
             (newDependencyGraph (rootId manifest) initialState) = Some graph"
  shows "dependenciesError (callerState graph)
           = concat (map (recordedErrors policy index manifest) (nodes graph))
         \<and> (foundErrors (callerState graph) \<longleftrightarrow> dependenciesError (callerState graph) \<noteq> [])"
proof (rule while_option_rule
         [where P = "\<lambda>g. dependenciesError (callerState g)
                             = concat (map (recordedErrors policy index manifest) (nodes g))
                           \<and> (foundErrors (callerState g)
                                \<longleftrightarrow> dependenciesError (callerState g) \<noteq> [])",
          OF _ assms [unfolded BuildGraph_def]])
  show "dependenciesError (callerState (newDependencyGraph (rootId manifest) initialState))
          = concat (map (recordedErrors policy index manifest)
                      (nodes (newDependencyGraph (rootId manifest) initialState)))
        \<and> (foundErrors (callerState (newDependencyGraph (rootId manifest) initialState))
             \<longleftrightarrow> dependenciesError (callerState (newDependencyGraph (rootId manifest) initialState))
                  \<noteq> [])"
    by (simp add: newDependencyGraph_def initialState_def)
next
  fix s :: "('a, 'a ValidationState) DependencyGraph"
  assume inv: "dependenciesError (callerState s)
                 = concat (map (recordedErrors policy index manifest) (nodes s))
               \<and> (foundErrors (callerState s) \<longleftrightarrow> dependenciesError (callerState s) \<noteq> [])"
     and b: "queue s \<noteq> [] \<and> raised s = None"
  from b have ne: "queue s \<noteq> []" by simp
  from ne inv
  show "dependenciesError (callerState (BuildGraph_step pick (expansionCallback policy index manifest) s))
           = concat (map (recordedErrors policy index manifest)
                       (nodes (BuildGraph_step pick (expansionCallback policy index manifest) s)))
         \<and> (foundErrors (callerState (BuildGraph_step pick (expansionCallback policy index manifest) s))
              \<longleftrightarrow> dependenciesError
                     (callerState (BuildGraph_step pick (expansionCallback policy index manifest) s))
                   \<noteq> [])"
    by (rule BuildGraph_step_errors)
qed

text \<open>
  Claim C3. Let the identifiers that expansion can reach from the manifest lie in a finite
  set. Then the construction of the graph ends, and when nothing was raised the call
  decides in this order: the errors recorded are those of the expanded nodes, in the order
  of expansion, each a missing dependency or an unsatisfied minimum version; if there is
  one, the call fails with exactly that list, which holds no loop error; otherwise, if
  \<open>HasLoop\<close> is true, it fails with the single loop error; otherwise it succeeds.
\<close>

theorem validation_error_priority:
  assumes fin: "finite U"
      and root: "Manifest.Id manifest \<in> U"
      and closed: "\<forall>node children.
                     Dependency.Id node \<in> U
                     \<longrightarrow> fst (expansionCallback policy index manifest node initialState) = Inr children
                     \<longrightarrow> Dependency.Id ` set children \<subseteq> U"
  shows "\<exists>graph.
           BuildGraph pick (expansionCallback policy index manifest)
             (newDependencyGraph (rootId manifest) initialState) = Some graph
           \<and> dependenciesError (callerState graph)
               = concat (map (recordedErrors policy index manifest) (nodes graph))
           \<and> (\<forall>e \<in> set (dependenciesError (callerState graph)). structuralError e)
           \<and> ValidateManifestDependencies pick policy index manifest
               = Some (case raised graph of
                         Some e \<Rightarrow> Inl e
                       | None \<Rightarrow>
                           if dependenciesError (callerState graph) \<noteq> []
                           then Inl (ManifestException (dependenciesError (callerState graph)))
                           else if HasLoop graph
                           then Inl (ManifestException [ValidationError FoundLoop ''''])
                           else Inr True)"
proof -
  let ?g0 = "newDependencyGraph (rootId manifest) initialState :: ('a, 'a ValidationState) DependencyGraph"
  have "\<exists>graph. BuildGraph pick (expansionCallback policy index manifest) ?g0 = Some graph"
  proof (rule BuildGraph_terminates [where N = "{n. Dependency.Id n \<in> U}"])
    have "Dependency.Id ` {n :: 'a Dependency. Dependency.Id n \<in> U} \<subseteq> U" by blast
    then show "finite (Dependency.Id ` {n :: 'a Dependency. Dependency.Id n \<in> U})"
      using fin by (rule finite_subset)
  next
    show "set (queue ?g0) \<subseteq> {n. Dependency.Id n \<in> U}"
      using root by (simp add: newDependencyGraph_def rootId_def)
  next
    fix node :: "'a Dependency" and st children st'
    assume n: "node \<in> {n. Dependency.Id n \<in> U}"
       and e: "expansionCallback policy index manifest node st = (Inr children, st')"
    have "fst (expansionCallback policy index manifest node initialState) = Inr children"
      using expansionCallback_state(3) [OF e] by simp
    then have "Dependency.Id ` set children \<subseteq> U" using closed n by blast
    then show "set children \<subseteq> {n. Dependency.Id n \<in> U}" by blast
  qed
  then obtain graph where
    built: "BuildGraph pick (expansionCallback policy index manifest) ?g0 = Some graph" by blast
  note inv = BuildGraph_errors [OF built]
  have structural: "\<forall>e \<in> set (dependenciesError (callerState graph)). structuralError e"
    using inv recordedErrors_structural by (fastforce simp: set_concat)
  have "ValidateManifestDependencies pick policy index manifest = Some (verdict graph)"
    using built by (simp add: ValidateManifestDependencies_def)
  moreover have "verdict graph
      = (case raised graph of
           Some e \<Rightarrow> Inl e
         | None \<Rightarrow>
             if dependenciesError (callerState graph) \<noteq> []
             then Inl (ManifestException (dependenciesError (callerState graph)))
             else if HasLoop graph
             then Inl (ManifestException [ValidationError FoundLoop ''''])
             else Inr True)"
  proof (cases "raised graph")
    case (Some e)
    then show ?thesis by (simp add: verdict_def)
  next
    case None
    have f: "foundErrors (callerState graph) \<longleftrightarrow> dependenciesError (callerState graph) \<noteq> []"
      using inv by (rule conjunct2)
    show ?thesis
    proof (cases "dependenciesError (callerState graph) = []")
      case True
      then show ?thesis using None f by (simp add: verdict_def)
    next
      case False
      then show ?thesis using None f by (simp add: verdict_def)
    qed
  qed
  ultimately have "ValidateManifestDependencies pick policy index manifest
      = Some (case raised graph of
           Some e \<Rightarrow> Inl e
         | None \<Rightarrow>
             if dependenciesError (callerState graph) \<noteq> []
             then Inl (ManifestException (dependenciesError (callerState graph)))
             else if HasLoop graph
             then Inl (ManifestException [ValidationError FoundLoop ''''])
             else Inr True)"
    by (simp only:)
  with built conjunct1 [OF inv] structural show ?thesis by blast
qed

lemma example_closed:
  "\<forall>node children.
      Dependency.Id node \<in> {''R'', ''A'', ''C'', ''B''}
      \<longrightarrow> fst (expansionCallback KeepExisting example_graph_index example_root node initialState)
            = Inr children
      \<longrightarrow> Dependency.Id ` set children \<subseteq> {''R'', ''A'', ''C'', ''B''}"
  by (auto simp: graph_example_defs callback_defs Let_def split: if_splits)

lemma example_loop_closed:
  "\<forall>node children.
      Dependency.Id node \<in> {''R'', ''A'', ''C'', ''B''}
      \<longrightarrow> fst (expansionCallback KeepExisting example_loop_index example_root node initialState)
            = Inr children
      \<longrightarrow> Dependency.Id ` set children \<subseteq> {''R'', ''A'', ''C'', ''B''}"
  by (auto simp: example_loop_index_def graph_example_defs callback_defs Let_def split: if_splits)

text \<open>
  The manifest \<open>R\<close>: expanded oldest first the call succeeds, expanded newest first
  it fails with the one structural error. With the loop between \<open>A\<close> and \<open>B\<close> the
  call fails with the loop error alone when no structural error was recorded, and with the
  structural error alone when one was.
\<close>

theorem validation_error_priority_witness:
  "ValidateManifestDependencies firstInQueue KeepExisting example_graph_index example_root
     = Some (Inr True)
   \<and> ValidateManifestDependencies lastInQueue KeepExisting example_graph_index example_root
     = Some (Inl (ManifestException [ValidationError NoSuitableMinVersion '' B'']))
   \<and> ValidateManifestDependencies firstInQueue KeepExisting example_loop_index example_root
     = Some (Inl (ManifestException [ValidationError FoundLoop '''']))
   \<and> ValidateManifestDependencies lastInQueue KeepExisting example_loop_index example_root
     = Some (Inl (ManifestException [ValidationError NoSuitableMinVersion '' B'']))"
proof -
  have f: "finite {''R'', ''A'', ''C'', ''B''}" by simp
  have r: "Manifest.Id example_root \<in> {''R'', ''A'', ''C'', ''B''}"
    by (simp add: graph_example_defs)
  note t = validation_error_priority [OF f r example_closed]
  note u = validation_error_priority [OF f r example_loop_closed]
  have a: "ValidateManifestDependencies firstInQueue KeepExisting example_graph_index example_root
             = Some (Inr True)"
    by code_simp
  have b: "ValidateManifestDependencies lastInQueue KeepExisting example_graph_index example_root
             = Some (Inl (ManifestException [ValidationError NoSuitableMinVersion '' B'']))"
    by code_simp
  have c: "ValidateManifestDependencies firstInQueue KeepExisting example_loop_index example_root
             = Some (Inl (ManifestException [ValidationError FoundLoop '''']))"
    by code_simp
  have d: "ValidateManifestDependencies lastInQueue KeepExisting example_loop_index example_root
             = Some (Inl (ManifestException [ValidationError NoSuitableMinVersion '' B'']))"
    by code_simp
  from t [of firstInQueue] u [of firstInQueue] show ?thesis
    by (elim exE) (simp only: a b c d)
qed


section \<open>The order of expansion\<close>
























end
